theory Spec2Isabelle
  imports Main "HOL-Library.AList"
begin

section \<open>Python strings and exceptions\<close>

text \<open>
  The resolver lives in \<^verbatim>\<open>code/client/munkilib/updatecheck.py\<close>. Strings are
  character lists; every exception the modelled code can raise is a value of \<open>exc\<close>,
  and a function that may raise returns \<open>exc + 'a\<close>.
\<close>

datatype exc =
    IndexError
  | KeyError string
  | TypeError string
  | ValueError string
  | AttributeError string
  | NSPropertyListSerializationException

text \<open>\<^verbatim>\<open>s.count(delim)\<close>: the number of non-overlapping occurrences, scanning from the left.\<close>

function py_count :: "string \<Rightarrow> string \<Rightarrow> nat" where
  "py_count delim [] = 0"
| "py_count delim (c # cs) =
     (if delim \<noteq> [] \<and> take (length delim) (c # cs) = delim
      then Suc (py_count delim (drop (length delim) (c # cs)))
      else py_count delim cs)"
  by pat_completeness auto
termination
  by (relation "measure (\<lambda>(delim, s). length s)") (auto simp: neq_Nil_conv)

text \<open>\<^verbatim>\<open>s.split(delim)\<close> for a non-empty delimiter; \<open>acc\<close> holds the current chunk, reversed.\<close>

function py_split_acc :: "string \<Rightarrow> string \<Rightarrow> string \<Rightarrow> string list" where
  "py_split_acc delim acc [] = [rev acc]"
| "py_split_acc delim acc (c # cs) =
     (if delim \<noteq> [] \<and> take (length delim) (c # cs) = delim
      then rev acc # py_split_acc delim [] (drop (length delim) (c # cs))
      else py_split_acc delim (c # acc) cs)"
  by pat_completeness auto
termination
  by (relation "measure (\<lambda>(delim, acc, s). length s)") (auto simp: neq_Nil_conv)

definition py_split :: "string \<Rightarrow> string \<Rightarrow> string list" where
  "py_split delim s = py_split_acc delim [] s"

text \<open>\<^verbatim>\<open>delim.join(chunks)\<close>.\<close>

fun py_join :: "string \<Rightarrow> string list \<Rightarrow> string" where
  "py_join delim [] = []"
| "py_join delim [x] = x"
| "py_join delim (x # y # ys) = x @ delim @ py_join delim (y # ys)"

text \<open>\<^verbatim>\<open>sub in s\<close> on strings.\<close>

fun py_contains :: "string \<Rightarrow> string \<Rightarrow> bool" where
  "py_contains sub [] = (sub = [])"
| "py_contains sub (c # cs) = (take (length sub) (c # cs) = sub \<or> py_contains sub cs)"

text \<open>\<^verbatim>\<open>os.path.split(p)[1]\<close>: what follows the last slash.\<close>

definition os_path_split_tail :: "string \<Rightarrow> string" where
  "os_path_split_tail p = rev (takeWhile (\<lambda>c. c \<noteq> CHR ''/'') (rev p))"

section \<open>nameAndVersion\<close>

text \<open>
  \<^verbatim>\<open>
  def nameAndVersion(aString):
      for delim in ('--', '-'):
          if aString.count(delim) > 0:
              chunks = aString.split(delim)
              vers = chunks.pop()
              name = delim.join(chunks)
              if vers[0] in '0123456789':
                  return (name, vers)
      return (aString, '')
  \<close>
  \<^verbatim>\<open>vers[0]\<close> raises IndexError when the last chunk is empty.
\<close>

fun nameAndVersion_loop :: "string list \<Rightarrow> string \<Rightarrow> exc + string \<times> string" where
  "nameAndVersion_loop [] aString = Inr (aString, [])"
| "nameAndVersion_loop (delim # delims) aString =
     (if py_count delim aString > 0
      then (let chunks = py_split delim aString;
                vers = last chunks;
                name = py_join delim (butlast chunks)
            in case vers of
                 [] \<Rightarrow> Inl IndexError
               | c # _ \<Rightarrow> if c \<in> set ''0123456789'' then Inr (name, vers)
                          else nameAndVersion_loop delims aString)
      else nameAndVersion_loop delims aString)"

definition nameAndVersion :: "string \<Rightarrow> exc + string \<times> string" where
  "nameAndVersion aString = nameAndVersion_loop [''--'', ''-''] aString"

section \<open>Catalog items and outcome records\<close>

text \<open>
  A pkginfo value that the admin may write as one string or as a list of strings
  (\<^verbatim>\<open>requires\<close>, \<^verbatim>\<open>update_for\<close>).
\<close>

datatype strs = Str string | Strs "string list"

text \<open>One entry of a pkginfo's \<^verbatim>\<open>installs\<close> list; the keys other than the path are opaque.\<close>

record installs_item =
  inst_path :: "string option"
  inst_other :: "(string \<times> string) list"

text \<open>One entry of a pkginfo's \<^verbatim>\<open>receipts\<close> list.\<close>

record receipt =
  packageid :: "string option"
  receipt_version :: "string option"

text \<open>
  An entry of \<^verbatim>\<open>installinfo['managed_installs']\<close>, the dictionary \<^verbatim>\<open>iteminfo\<close> that
  processInstall builds. A key that may be absent is an option; \<open>ii_optional\<close> holds the
  remaining keys of \<^verbatim>\<open>optional_keys\<close>, whose values the resolver only copies.
\<close>

record iteminfo =
  ii_name :: string
  ii_display_name :: string
  ii_description :: string
  ii_installer_item_size :: "int option"
  ii_installed_size :: "int option"
  ii_download_kbytes_per_sec :: "int option"
  ii_installer_item :: "string option"
  ii_installed :: "bool option"
  ii_version_to_install :: "string option"
  ii_installed_version :: "string option"
  ii_unattended_install :: "bool option"
  ii_note :: "string option"
  ii_RestartAction :: "string option"
  ii_force_install_after_date :: "int option"
  ii_requires :: "strs option"
  ii_update_for :: "strs option"
  ii_installs :: "installs_item list option"
  ii_optional :: "(string \<times> string) list"

section \<open>checkForceInstallPackages\<close>

text \<open>
  Dates are seconds on the NSDate time line. \<^verbatim>\<open>discardTimeZoneFromDate\<close> subtracts the
  local offset, which the code reads as hours and minutes from the \<^verbatim>\<open>%z\<close> format.
\<close>

definition FORCE_INSTALL_WARNING_HOURS :: int where
  "FORCE_INSTALL_WARNING_HOURS = 4"

definition discardTimeZoneFromDate :: "int \<Rightarrow> int \<Rightarrow> int \<Rightarrow> int" where
  "discardTimeZoneFromDate hour_offset minute_offset the_date =
     the_date - (60 * 60 * hour_offset + 60 * minute_offset)"

text \<open>Python truth of \<^verbatim>\<open>d.get(key)\<close> for a string value.\<close>

definition truthy_str :: "string option \<Rightarrow> bool" where
  "truthy_str v = (case v of None \<Rightarrow> False | Some s \<Rightarrow> s \<noteq> [])"

text \<open>
  The body of the loop over \<^verbatim>\<open>installinfo['managed_installs']\<close> for one record: the record
  as stored back, the new \<^verbatim>\<open>result\<close>, and whether \<^verbatim>\<open>writeback\<close> was set.
\<close>

definition force_install_step ::
  "int \<Rightarrow> int \<Rightarrow> int \<Rightarrow> int \<Rightarrow> iteminfo \<Rightarrow> string option \<Rightarrow> iteminfo \<times> string option \<times> bool" where
  "force_install_step now now_xhours hour_offset minute_offset install result =
     (case ii_force_install_after_date install of
        None \<Rightarrow> (install, result, False)
      | Some date \<Rightarrow>
          (let force_install_after_date = discardTimeZoneFromDate hour_offset minute_offset date;
               (install1, result1, wb) =
                 (if now \<ge> force_install_after_date
                  then (if truthy_str (ii_RestartAction install)
                        then (install,
                              Some (if ii_RestartAction install = Some ''RequireLogout'' then ''logout''
                                    else if ii_RestartAction install = Some ''RequireRestart'' then ''restart''
                                    else ''now''),
                              False)
                        else if ii_unattended_install install \<noteq> Some True
                        then (install\<lparr>ii_unattended_install := Some True\<rparr>, Some ''now'', True)
                        else (install, Some ''now'', False))
                  else (install, result, False));
               result2 = (if now_xhours \<ge> force_install_after_date
                          then (if result1 = None then Some ''soon'' else result1)
                          else result1)
           in (install1, result2, wb)))"

fun force_install_loop ::
  "int \<Rightarrow> int \<Rightarrow> int \<Rightarrow> int \<Rightarrow> iteminfo list \<Rightarrow> string option \<Rightarrow> iteminfo list \<times> string option \<times> bool" where
  "force_install_loop now now_xhours ho mo [] result = ([], result, False)"
| "force_install_loop now now_xhours ho mo (install # rest) result =
     (let (install', result', wb) = force_install_step now now_xhours ho mo install result;
          (rest', result'', wb') = force_install_loop now now_xhours ho mo rest result'
      in (install' # rest', result'', wb \<or> wb'))"

text \<open>
  \<open>plist\<close> is the \<^verbatim>\<open>managed_installs\<close> list read from InstallInfo.plist, \<open>None\<close> when
  reading raises NSPropertyListSerializationException. The function returns \<^verbatim>\<open>result\<close> and
  the list it writes back, \<open>None\<close> when \<^verbatim>\<open>writeback\<close> stayed False.
\<close>

definition checkForceInstallPackages ::
  "int \<Rightarrow> int \<Rightarrow> int \<Rightarrow> iteminfo list option \<Rightarrow> string option \<times> iteminfo list option" where
  "checkForceInstallPackages now hour_offset minute_offset plist =
     (case plist of
        None \<Rightarrow> (None, None)
      | Some managed_installs \<Rightarrow>
          (let now_xhours = now + FORCE_INSTALL_WARNING_HOURS * 3600;
               (installs', result, writeback) =
                 force_install_loop now now_xhours hour_offset minute_offset managed_installs None
           in (result, if writeback then Some installs' else None)))"

text \<open>Vocabulary for stating what the loop computes.\<close>

definition deadline_passed :: "int \<Rightarrow> int \<Rightarrow> int \<Rightarrow> iteminfo \<Rightarrow> bool" where
  "deadline_passed now ho mo install =
     (case ii_force_install_after_date install of
        None \<Rightarrow> False
      | Some date \<Rightarrow> now \<ge> discardTimeZoneFromDate ho mo date)"

definition item_urgency :: "iteminfo \<Rightarrow> string" where
  "item_urgency install =
     (if ii_RestartAction install = Some ''RequireLogout'' then ''logout''
      else if ii_RestartAction install = Some ''RequireRestart'' then ''restart''
      else ''now'')"

text \<open>The order of the specification: now above logout and restart, above soon, above none.\<close>

definition urgency_rank :: "string option \<Rightarrow> nat" where
  "urgency_rank u =
     (if u = Some ''now'' then 3
      else if u = Some ''logout'' \<or> u = Some ''restart'' then 2
      else if u = Some ''soon'' then 1 else 0)"

definition blank_iteminfo :: "string \<Rightarrow> iteminfo" where
  "blank_iteminfo n =
     \<lparr>ii_name = n, ii_display_name = n, ii_description = [],
      ii_installer_item_size = None, ii_installed_size = None,
      ii_download_kbytes_per_sec = None, ii_installer_item = None,
      ii_installed = None, ii_version_to_install = None, ii_installed_version = None,
      ii_unattended_install = None, ii_note = None, ii_RestartAction = None,
      ii_force_install_after_date = None, ii_requires = None, ii_update_for = None,
      ii_installs = None, ii_optional = []\<rparr>"

definition due_soon :: "int \<Rightarrow> int \<Rightarrow> int \<Rightarrow> iteminfo \<Rightarrow> bool" where
  "due_soon now_xhours ho mo install =
     (case ii_force_install_after_date install of
        None \<Rightarrow> False
      | Some date \<Rightarrow> now_xhours \<ge> discardTimeZoneFromDate ho mo date)"

text \<open>Sample records: deadlines at 0, checked at time 10 with no zone offset.\<close>

definition item_due_now :: iteminfo where
  "item_due_now = (blank_iteminfo ''Qux'')\<lparr>ii_force_install_after_date := Some 0\<rparr>"

definition item_due_logout :: iteminfo where
  "item_due_logout = (blank_iteminfo ''Quux'')\<lparr>ii_force_install_after_date := Some 0,
     ii_RestartAction := Some ''RequireLogout''\<rparr>"

definition item_due_unattended :: iteminfo where
  "item_due_unattended = (blank_iteminfo ''Qux'')\<lparr>ii_force_install_after_date := Some 0,
     ii_unattended_install := Some True\<rparr>"

section \<open>Catalog items\<close>

text \<open>
  A pkginfo dictionary as loaded from a catalog. A key that the code tests with
  \<^verbatim>\<open>in\<close> or reads with \<^verbatim>\<open>get\<close> is an option; a flag that is only tested for truth is a
  bool; \<open>pk_other\<close> holds the keys whose values the resolver only copies or hands to
  the download helper.
\<close>

record pkginfo =
  pk_name :: "string option"
  pk_version :: "string option"
  pk_display_name :: "string option"
  pk_description :: "string option"
  pk_requires :: "strs option"
  pk_update_for :: "strs option"
  pk_installs :: "installs_item list option"
  pk_receipts :: "receipt list option"
  pk_autoremove :: bool
  pk_minimum_os_version :: "string option"
  pk_maximum_os_version :: "string option"
  pk_supported_architectures :: "string list option"
  pk_softwareupdatename :: "string option"
  pk_installer_item_location :: "string option"
  pk_uninstaller_item_location :: "string option"
  pk_installer_item_size :: "int option"
  pk_installed_size :: "int option"
  pk_uninstaller_item_size :: "int option"
  pk_unattended_install :: bool
  pk_forced_install :: bool
  pk_unattended_uninstall :: bool
  pk_forced_uninstall :: bool
  pk_RestartAction :: "string option"
  pk_force_install_after_date :: "int option"
  pk_uninstallable :: bool
  pk_uninstall_method :: "string option"
  pk_other :: "(string \<times> string) list"

definition blank_pkginfo :: "string \<Rightarrow> string \<Rightarrow> pkginfo" where
  "blank_pkginfo n v =
     \<lparr>pk_name = Some n, pk_version = Some v, pk_display_name = None, pk_description = None,
      pk_requires = None, pk_update_for = None, pk_installs = None, pk_receipts = None,
      pk_autoremove = False, pk_minimum_os_version = None, pk_maximum_os_version = None,
      pk_supported_architectures = None, pk_softwareupdatename = None,
      pk_installer_item_location = None, pk_uninstaller_item_location = None,
      pk_installer_item_size = None, pk_installed_size = None, pk_uninstaller_item_size = None,
      pk_unattended_install = False, pk_forced_install = False,
      pk_unattended_uninstall = False, pk_forced_uninstall = False,
      pk_RestartAction = None, pk_force_install_after_date = None,
      pk_uninstallable = False, pk_uninstall_method = None, pk_other = []\<rparr>"

section \<open>trimVersionString\<close>

text \<open>
  \<^verbatim>\<open>
  def trimVersionString(version_string):
      if version_string == None or version_string == '':
          return ''
      version_parts = version_string.split('.')
      while len(version_parts) > 2 and version_parts[-1] == '0':
          del (version_parts[-1])
      return '.'.join(version_parts)
  \<close>
\<close>

function trim_version_parts :: "string list \<Rightarrow> string list" where
  "trim_version_parts version_parts =
     (if length version_parts > 2 \<and> last version_parts = ''0''
      then trim_version_parts (butlast version_parts)
      else version_parts)"
  by pat_completeness auto
termination
  by (relation "measure length") auto

declare trim_version_parts.simps [simp del]

definition trimVersionString :: "string option \<Rightarrow> string" where
  "trimVersionString version_string =
     (case version_string of
        None \<Rightarrow> []
      | Some v \<Rightarrow> if v = [] then [] else py_join ''.'' (trim_version_parts (py_split ''.'' v)))"

section \<open>makeCatalogDB\<close>

text \<open>
  The name and package-id tables are dictionaries of dictionaries of index lists; they are
  association lists here, a new key going to the end, so that the order in which keys were
  first seen is kept.
\<close>

type_synonym index_table = "(string \<times> (string \<times> nat list) list) list"

definition table_append :: "string \<Rightarrow> string \<Rightarrow> nat \<Rightarrow> index_table \<Rightarrow> index_table" where
  "table_append key vers itemindex table =
     (let by_vers = (case map_of table key of None \<Rightarrow> [] | Some t \<Rightarrow> t);
          indexes = (case map_of by_vers vers of None \<Rightarrow> [] | Some l \<Rightarrow> l)
      in AList.update key (AList.update vers (indexes @ [itemindex]) by_vers) table)"

text \<open>The receipts of one item: only those with both a package id and a version are indexed.\<close>

fun add_receipts :: "nat \<Rightarrow> receipt list \<Rightarrow> index_table \<Rightarrow> index_table" where
  "add_receipts itemindex [] pkgid_table = pkgid_table"
| "add_receipts itemindex (r # rs) pkgid_table =
     (case (packageid r, receipt_version r) of
        (Some p, Some v) \<Rightarrow> add_receipts itemindex rs (table_append p v itemindex pkgid_table)
      | _ \<Rightarrow> add_receipts itemindex rs pkgid_table)"

fun index_items ::
  "nat \<Rightarrow> pkginfo list \<Rightarrow> index_table \<times> index_table \<Rightarrow> index_table \<times> index_table" where
  "index_items itemindex [] tables = tables"
| "index_items itemindex (item # rest) (name_table, pkgid_table) =
     (let name = (case pk_name item of None \<Rightarrow> ''NO NAME'' | Some n \<Rightarrow> n);
          vers = trimVersionString
                   (Some (case pk_version item of None \<Rightarrow> ''NO VERSION'' | Some v \<Rightarrow> v));
          name_table' = table_append name vers itemindex name_table;
          pkgid_table' = (case pk_receipts item of
                            None \<Rightarrow> pkgid_table
                          | Some rs \<Rightarrow> add_receipts itemindex rs pkgid_table)
      in index_items (Suc itemindex) rest (name_table', pkgid_table'))"

text \<open>Python truth of \<^verbatim>\<open>item.get('update_for')\<close>: a non-empty string or a non-empty list.\<close>

definition truthy_strs :: "strs option \<Rightarrow> bool" where
  "truthy_strs v = (case v of None \<Rightarrow> False | Some (Str s) \<Rightarrow> s \<noteq> [] | Some (Strs l) \<Rightarrow> l \<noteq> [])"

text \<open>
  \<^verbatim>\<open>
  updaters = [item for item in catalogitems if item.get('update_for')]
  for update in updaters:
      if isinstance(update['update_for'], basestring):
          update['update_for'] = [update['update_for']]
  \<close>
  The updaters are the item objects of \<^verbatim>\<open>catalogitems\<close> themselves, so the assignment
  changes the caller's list: \<open>fix_update_for\<close> is what happens to each of its items.
\<close>

definition fix_update_for :: "pkginfo \<Rightarrow> pkginfo" where
  "fix_update_for item =
     (if truthy_strs (pk_update_for item)
      then (case pk_update_for item of
              Some (Str s) \<Rightarrow> item\<lparr>pk_update_for := Some (Strs [s])\<rparr>
            | _ \<Rightarrow> item)
      else item)"

record catalogdb =
  db_named :: index_table
  db_receipts :: index_table
  db_updaters :: "pkginfo list"
  db_autoremoveitems :: "string option list"
  db_items :: "pkginfo list"

text \<open>
  \<open>uniq\<close> stands for \<^verbatim>\<open>list(set(...))\<close>, whose order Python does not fix. The result is
  the database together with the caller's \<^verbatim>\<open>catalogitems\<close> list as it is after the call.
\<close>

definition makeCatalogDB ::
  "(string option list \<Rightarrow> string option list) \<Rightarrow> pkginfo list \<Rightarrow> catalogdb \<times> pkginfo list" where
  "makeCatalogDB uniq catalogitems =
     (let (name_table, pkgid_table) = index_items 0 catalogitems ([], []);
          catalogitems' = map fix_update_for catalogitems;
          updaters = filter (\<lambda>item. truthy_strs (pk_update_for item)) catalogitems';
          autoremoveitems = uniq (map pk_name (filter pk_autoremove catalogitems'))
      in (\<lparr>db_named = name_table, db_receipts = pkgid_table, db_updaters = updaters,
           db_autoremoveitems = autoremoveitems, db_items = catalogitems'\<rparr>,
          catalogitems'))"

definition updater_with_string :: pkginfo where
  "updater_with_string = (blank_pkginfo ''PhotoshopUpdate'' ''11.0.1'')\<lparr>pk_update_for := Some (Str ''Photoshop'')\<rparr>"

section \<open>The environment of a check run\<close>

text \<open>
  What the resolver reads from outside the module is a field of \<open>env\<close>:
  the loaded catalogs (the global \<^verbatim>\<open>CATALOG\<close>, built by makeCatalogDB), the machine
  facts, the version order of \<^verbatim>\<open>munkicommon.MunkiLooseVersion\<close> as a key into a linear
  order, the order in which \<^verbatim>\<open>list(set(...))\<close> lists a set, the file system, the installed
  receipts and the download helper of \<^verbatim>\<open>fetch\<close>.
\<close>

datatype fetch_result =
    Fetched bool
  | PackageVerificationError
  | CurlDownloadError string
  | MunkiDownloadError string

text \<open>The global \<^verbatim>\<open>PKGDATA\<close> that analyzeInstalledPkgs fills.\<close>

record pkgdata =
  receipts_for_name :: "(string \<times> string list) list"
  installed_names :: "string list"
  pkg_references :: "(string \<times> string list) list"

record 'v env =
  CATALOG :: "(string \<times> catalogdb) list"
  MACHINE_os_vers :: string
  MACHINE_arch :: string
  MunkiLooseVersion :: "string option \<Rightarrow> 'v"
  list_set :: "string list \<Rightarrow> string list"
  compareItemVersion :: "installs_item \<Rightarrow> int option"
  INSTALLEDPKGS :: "(string \<times> string) list"
  softwareUpdateList :: "string list"
  getInstalledVersion :: "pkginfo \<Rightarrow> string"
  path_exists :: "string \<Rightarrow> bool"
  path_executable :: "string \<Rightarrow> bool"
  urlparse_path :: "string \<Rightarrow> string"
  cached_size :: "string \<Rightarrow> int option"
  getAvailableDiskSpace :: int
  getResourceIfChangedAtomically :: "pkginfo \<Rightarrow> string \<Rightarrow> fetch_result"
  download_seconds :: "pkginfo \<Rightarrow> int"
  readPlist_catalog :: "string \<Rightarrow> exc + pkginfo list"
  analyzeInstalledPkgs :: pkgdata

text \<open>
  \<open>compareItemVersion\<close> is \<open>None\<close> where the code raises \<^verbatim>\<open>munkicommon.Error\<close>;
  \<open>cached_size\<close> is the size of a file of the download cache, \<open>None\<close> when it does not
  exist; \<open>readPlist_catalog\<close> reads a catalog file of the local catalogs directory;
  \<open>analyzeInstalledPkgs\<close> is the table that function would build.
\<close>

subsection \<open>compareVersions\<close>

definition compareVersions :: "('v::linorder) env \<Rightarrow> string option \<Rightarrow> string option \<Rightarrow> int" where
  "compareVersions env thisvers thatvers =
     (if MunkiLooseVersion env thisvers < MunkiLooseVersion env thatvers then - 1
      else if MunkiLooseVersion env thisvers = MunkiLooseVersion env thatvers then 1
      else 2)"

text \<open>
  \<^verbatim>\<open>xs.sort(cmp)\<close> with \<^verbatim>\<open>cmp(a, b) = cmp(key(b), key(a))\<close>: a stable sort, largest key
  first.
\<close>

fun insert_desc :: "('a \<Rightarrow> 'v::linorder) \<Rightarrow> 'a \<Rightarrow> 'a list \<Rightarrow> 'a list" where
  "insert_desc key x [] = [x]"
| "insert_desc key x (y # ys) =
     (if key y \<le> key x then x # y # ys else y # insert_desc key x ys)"

definition sort_desc :: "('a \<Rightarrow> 'v::linorder) \<Rightarrow> 'a list \<Rightarrow> 'a list" where
  "sort_desc key xs = foldr (insert_desc key) xs []"

subsection \<open>isItemInInstallInfo\<close>

text \<open>
  \<^verbatim>\<open>
  def isItemInInstallInfo(manifestitem_pl, thelist, vers=''):
      for item in thelist:
          try:
              if (item['name'] == manifestitem_pl['name']):
                  if not vers:
                      return True
                  if item.get('installed'):
                      return True
                  if (compareVersions(
                          item.get('version_to_install'), vers) in (1, 2)):
                      return True
          except KeyError:
              pass
      return False
  \<close>
\<close>

fun isItemInInstallInfo ::
  "('v::linorder) env \<Rightarrow> pkginfo \<Rightarrow> iteminfo list \<Rightarrow> string option \<Rightarrow> bool" where
  "isItemInInstallInfo env manifestitem_pl [] vers = False"
| "isItemInInstallInfo env manifestitem_pl (item # thelist) vers =
     (case pk_name manifestitem_pl of
        None \<Rightarrow> isItemInInstallInfo env manifestitem_pl thelist vers
      | Some n \<Rightarrow>
          if ii_name item = n
          then (if \<not> truthy_str vers then True
                else if ii_installed item = Some True then True
                else if compareVersions env (ii_version_to_install item) vers \<in> {1, 2} then True
                else isItemInInstallInfo env manifestitem_pl thelist vers)
          else isItemInInstallInfo env manifestitem_pl thelist vers)"

subsection \<open>getItemDetail\<close>

text \<open>
  The eligibility tests on one candidate. Each debug message reads \<^verbatim>\<open>item['name']\<close> and
  \<^verbatim>\<open>item['version']\<close> before any test can reject the item, and so does the message before
  \<^verbatim>\<open>return item\<close>: a candidate without one of the keys raises KeyError.
\<close>

definition item_eligible :: "('v::linorder) env \<Rightarrow> pkginfo \<Rightarrow> exc + bool" where
  "item_eligible env item =
     (if pk_name item = None then Inl (KeyError ''name'')
      else if pk_version item = None then Inl (KeyError ''version'')
      else if truthy_str (pk_minimum_os_version item) \<and>
              MunkiLooseVersion env (Some (MACHINE_os_vers env))
                < MunkiLooseVersion env (pk_minimum_os_version item)
      then Inr False
      else if truthy_str (pk_maximum_os_version item) \<and>
              MunkiLooseVersion env (Some (MACHINE_os_vers env))
                > MunkiLooseVersion env (pk_maximum_os_version item)
      then Inr False
      else (case pk_supported_architectures item of
              None \<Rightarrow> Inr True
            | Some archs \<Rightarrow> Inr (MACHINE_arch env \<in> set archs)))"

fun first_eligible :: "('v::linorder) env \<Rightarrow> pkginfo list \<Rightarrow> nat list \<Rightarrow> exc + pkginfo option" where
  "first_eligible env items [] = Inr None"
| "first_eligible env items (index # indexlist) =
     (if index < length items
      then (case item_eligible env (items ! index) of
              Inl e \<Rightarrow> Inl e
            | Inr True \<Rightarrow> Inr (Some (items ! index))
            | Inr False \<Rightarrow> first_eligible env items indexlist)
      else Inl IndexError)"

definition indexes_of :: "(string \<times> nat list) list \<Rightarrow> string \<Rightarrow> nat list" where
  "indexes_of by_vers vers = (case map_of by_vers vers of None \<Rightarrow> [] | Some l \<Rightarrow> l)"

fun getItemDetail_catalogs ::
  "('v::linorder) env \<Rightarrow> string \<Rightarrow> string \<Rightarrow> string list \<Rightarrow> exc + pkginfo option" where
  "getItemDetail_catalogs env name vers [] = Inr None"
| "getItemDetail_catalogs env name vers (catalogname # cataloglist) =
     (case map_of (CATALOG env) catalogname of
        None \<Rightarrow> getItemDetail_catalogs env name vers cataloglist
      | Some db \<Rightarrow>
          (case map_of (db_named db) name of
             None \<Rightarrow> getItemDetail_catalogs env name vers cataloglist
           | Some itemsmatchingname \<Rightarrow>
               (let indexlist =
                      (if vers = ''latest''
                       then concat (map (indexes_of itemsmatchingname)
                              (sort_desc (\<lambda>k. MunkiLooseVersion env (Some k))
                                 (map fst itemsmatchingname)))
                       else indexes_of itemsmatchingname vers)
                in case first_eligible env (db_items db) indexlist of
                     Inl e \<Rightarrow> Inl e
                   | Inr (Some item) \<Rightarrow> Inr (Some item)
                   | Inr None \<Rightarrow> getItemDetail_catalogs env name vers cataloglist)))"

definition getItemDetail ::
  "('v::linorder) env \<Rightarrow> string \<Rightarrow> string list \<Rightarrow> string \<Rightarrow> exc + pkginfo option" where
  "getItemDetail env name cataloglist vers =
     (case nameAndVersion name of
        Inl e \<Rightarrow> Inl e
      | Inr (name', includedversion) \<Rightarrow>
          (let vers1 = (if vers = [] \<and> includedversion \<noteq> [] then includedversion else vers);
               vers2 = (if vers1 \<noteq> [] then trimVersionString (Some vers1) else ''latest'')
           in getItemDetail_catalogs env name' vers2 cataloglist))"

subsection \<open>getAllItemsWithName\<close>

text \<open>
  Every item is appended after a debug message that reads \<^verbatim>\<open>thisitem['version']\<close>, so an
  item without a version raises KeyError before the list is sorted.
\<close>

fun add_items :: "pkginfo list \<Rightarrow> nat list \<Rightarrow> pkginfo list \<Rightarrow> exc + pkginfo list" where
  "add_items items [] itemlist = Inr itemlist"
| "add_items items (index # indexlist) itemlist =
     (if index < length items
      then (let thisitem = items ! index
            in if thisitem \<in> set itemlist then add_items items indexlist itemlist
               else if pk_version thisitem = None then Inl (KeyError ''version'')
               else add_items items indexlist (itemlist @ [thisitem]))
      else Inl IndexError)"

fun add_versions ::
  "pkginfo list \<Rightarrow> (string \<times> nat list) list \<Rightarrow> string list \<Rightarrow> pkginfo list \<Rightarrow> exc + pkginfo list" where
  "add_versions items by_vers [] itemlist = Inr itemlist"
| "add_versions items by_vers (vers # rest) itemlist =
     (if vers \<noteq> ''latest''
      then (case add_items items (indexes_of by_vers vers) itemlist of
              Inl e \<Rightarrow> Inl e
            | Inr itemlist' \<Rightarrow> add_versions items by_vers rest itemlist')
      else add_versions items by_vers rest itemlist)"

fun getAllItemsWithName_catalogs ::
  "'v env \<Rightarrow> string \<Rightarrow> string list \<Rightarrow> pkginfo list \<Rightarrow> exc + pkginfo list" where
  "getAllItemsWithName_catalogs env name [] itemlist = Inr itemlist"
| "getAllItemsWithName_catalogs env name (catalogname # cataloglist) itemlist =
     (case map_of (CATALOG env) catalogname of
        None \<Rightarrow> getAllItemsWithName_catalogs env name cataloglist itemlist
      | Some db \<Rightarrow>
          (case map_of (db_named db) name of
             None \<Rightarrow> getAllItemsWithName_catalogs env name cataloglist itemlist
           | Some versionsmatchingname \<Rightarrow>
               (case add_versions (db_items db) versionsmatchingname
                       (map fst versionsmatchingname) itemlist of
                  Inl e \<Rightarrow> Inl e
                | Inr itemlist' \<Rightarrow> getAllItemsWithName_catalogs env name cataloglist itemlist')))"

definition getAllItemsWithName ::
  "('v::linorder) env \<Rightarrow> string \<Rightarrow> string list \<Rightarrow> exc + pkginfo list" where
  "getAllItemsWithName env name cataloglist =
     (case nameAndVersion name of
        Inl e \<Rightarrow> Inl e
      | Inr (name', _) \<Rightarrow>
          (case getAllItemsWithName_catalogs env name' cataloglist [] of
             Inl e \<Rightarrow> Inl e
           | Inr itemlist \<Rightarrow>
               Inr (sort_desc (\<lambda>item. MunkiLooseVersion env (pk_version item)) itemlist)))"

subsection \<open>lookForUpdates\<close>

text \<open>
  \<^verbatim>\<open>itemname in catalogitem.get('update_for', [])\<close> is membership in a list and substring
  search in a string; \<^verbatim>\<open>catalogitem['name']\<close> is read for the matching updaters only.
\<close>

definition updates_item :: "string \<Rightarrow> pkginfo \<Rightarrow> bool" where
  "updates_item itemname catalogitem =
     (case pk_update_for catalogitem of
        None \<Rightarrow> False
      | Some (Str s) \<Rightarrow> py_contains itemname s
      | Some (Strs l) \<Rightarrow> itemname \<in> set l)"

fun updater_names :: "string \<Rightarrow> pkginfo list \<Rightarrow> exc + string list" where
  "updater_names itemname [] = Inr []"
| "updater_names itemname (catalogitem # updaters) =
     (if updates_item itemname catalogitem
      then (case pk_name catalogitem of
              None \<Rightarrow> Inl (KeyError ''name'')
            | Some n \<Rightarrow> (case updater_names itemname updaters of
                           Inl e \<Rightarrow> Inl e
                         | Inr ns \<Rightarrow> Inr (n # ns)))
      else updater_names itemname updaters)"

fun lookForUpdates_catalogs :: "'v env \<Rightarrow> string \<Rightarrow> string list \<Rightarrow> exc + string list" where
  "lookForUpdates_catalogs env itemname [] = Inr []"
| "lookForUpdates_catalogs env itemname (catalogname # cataloglist) =
     (case map_of (CATALOG env) catalogname of
        None \<Rightarrow> lookForUpdates_catalogs env itemname cataloglist
      | Some db \<Rightarrow>
          (case updater_names itemname (db_updaters db) of
             Inl e \<Rightarrow> Inl e
           | Inr update_items \<Rightarrow>
               (case lookForUpdates_catalogs env itemname cataloglist of
                  Inl e \<Rightarrow> Inl e
                | Inr further \<Rightarrow> Inr (update_items @ further))))"

definition lookForUpdates :: "'v env \<Rightarrow> string \<Rightarrow> string list \<Rightarrow> exc + string list" where
  "lookForUpdates env itemname cataloglist =
     (case lookForUpdates_catalogs env itemname cataloglist of
        Inl e \<Rightarrow> Inl e
      | Inr update_list \<Rightarrow> Inr (list_set env update_list))"

definition lookForUpdatesForVersion ::
  "'v env \<Rightarrow> string \<Rightarrow> string \<Rightarrow> string list \<Rightarrow> exc + string list" where
  "lookForUpdatesForVersion env itemname itemversion cataloglist =
     (let name_and_version = itemname @ ''-'' @ itemversion;
          alt_name_and_version = itemname @ ''--'' @ itemversion
      in case lookForUpdates env name_and_version cataloglist of
           Inl e \<Rightarrow> Inl e
         | Inr update_list \<Rightarrow>
             (case lookForUpdates env alt_name_and_version cataloglist of
                Inl e \<Rightarrow> Inl e
              | Inr further \<Rightarrow> Inr (list_set env (update_list @ further))))"

section \<open>Installed-state detection\<close>

text \<open>
  compareReceiptVersion: \<open>None\<close> stands for \<^verbatim>\<open>munkicommon.Error\<close>, raised when the receipt
  lacks its package id or version.
\<close>

definition compareReceiptVersion :: "('v::linorder) env \<Rightarrow> receipt \<Rightarrow> int option" where
  "compareReceiptVersion env item =
     (case (packageid item, receipt_version item) of
        (Some pkgid, Some vers) \<Rightarrow>
          (case map_of (INSTALLEDPKGS env) pkgid of
             None \<Rightarrow> Some 0
           | Some installedvers \<Rightarrow>
               if installedvers \<noteq> []
               then Some (compareVersions env (Some installedvers) (Some vers))
               else Some 0)
      | _ \<Rightarrow> None)"

text \<open>
  The loop shared by the two branches of installedState: an item that is absent or older,
  or whose comparison raises, ends it with 0; a newer one is remembered.
\<close>

fun installedState_loop :: "('a \<Rightarrow> int option) \<Rightarrow> 'a list \<Rightarrow> bool \<Rightarrow> int" where
  "installedState_loop compare [] foundnewer = (if foundnewer then 2 else 1)"
| "installedState_loop compare (item # rest) foundnewer =
     (case compare item of
        None \<Rightarrow> 0
      | Some comparison \<Rightarrow>
          if comparison \<in> {- 1, 0} then 0
          else installedState_loop compare rest (foundnewer \<or> comparison = 2))"

definition installedState :: "('v::linorder) env \<Rightarrow> pkginfo \<Rightarrow> int" where
  "installedState env item_pl =
     (if truthy_str (pk_softwareupdatename item_pl)
      then (if the (pk_softwareupdatename item_pl) \<in> set (softwareUpdateList env) then 0 else 1)
      else (case pk_installs item_pl of
              Some (i # installitems) \<Rightarrow>
                installedState_loop (compareItemVersion env) (i # installitems) False
            | _ \<Rightarrow>
                (case pk_receipts item_pl of
                   Some receipts \<Rightarrow> installedState_loop (compareReceiptVersion env) receipts False
                 | None \<Rightarrow> 1)))"

fun someVersionInstalled_loop :: "('a \<Rightarrow> int option) \<Rightarrow> 'a list \<Rightarrow> bool" where
  "someVersionInstalled_loop compare [] = True"
| "someVersionInstalled_loop compare (item # rest) =
     (case compare item of
        None \<Rightarrow> False
      | Some comparison \<Rightarrow>
          if comparison = 0 then False else someVersionInstalled_loop compare rest)"

definition someVersionInstalled :: "('v::linorder) env \<Rightarrow> pkginfo \<Rightarrow> bool" where
  "someVersionInstalled env item_pl =
     (case pk_installs item_pl of
        Some (i # installitems) \<Rightarrow>
          someVersionInstalled_loop (compareItemVersion env) (i # installitems)
      | _ \<Rightarrow>
          (case pk_receipts item_pl of
             Some receipts \<Rightarrow> someVersionInstalled_loop (compareReceiptVersion env) receipts
           | None \<Rightarrow> True))"

section \<open>Downloading an installer item\<close>

definition getInstallerItemBasename :: "'v env \<Rightarrow> string \<Rightarrow> string" where
  "getInstallerItemBasename env url = os_path_split_tail (urlparse_path env url)"

definition int_or :: "int option \<Rightarrow> int \<Rightarrow> int" where
  "int_or v d = (case v of None \<Rightarrow> d | Some n \<Rightarrow> n)"

text \<open>The space that the installs already queued will take: the loop of enoughDiskSpace.\<close>

fun space_after_installs :: "int \<Rightarrow> iteminfo list \<Rightarrow> int" where
  "space_after_installs availablediskspace [] = availablediskspace"
| "space_after_installs availablediskspace (item # installlist) =
     space_after_installs
       (if truthy_str (ii_installer_item item)
        then availablediskspace - int_or (ii_installed_size item) 0
        else availablediskspace) installlist"

definition enoughDiskSpace :: "'v env \<Rightarrow> pkginfo \<Rightarrow> iteminfo list \<Rightarrow> bool \<Rightarrow> bool" where
  "enoughDiskSpace env manifestitem_pl installlist uninstalling =
     (let fudgefactor = 102400;
          alreadydownloadedsize =
            (case pk_installer_item_location manifestitem_pl of
               None \<Rightarrow> 0
             | Some loc \<Rightarrow> int_or (cached_size env (getInstallerItemBasename env loc)) 0);
          installeritemsize0 = int_or (pk_installer_item_size manifestitem_pl) 0;
          installedsize0 = int_or (pk_installed_size manifestitem_pl) installeritemsize0;
          installedsize = (if uninstalling then 0 else installedsize0);
          installeritemsize =
            (if uninstalling
             then int_or (pk_uninstaller_item_size manifestitem_pl) installeritemsize0
             else installeritemsize0);
          diskspaceneeded = installeritemsize - alreadydownloadedsize + installedsize + fudgefactor;
          availablediskspace = space_after_installs (getAvailableDiskSpace env) installlist
      in availablediskspace > diskspaceneeded)"

text \<open>
  download_installeritem returns True when it downloaded, False when the item was cached,
  and raises an error of \<^verbatim>\<open>fetch\<close>; all three are a \<open>fetch_result\<close>.
\<close>

definition download_installeritem ::
  "'v env \<Rightarrow> pkginfo \<Rightarrow> iteminfo list \<Rightarrow> bool \<Rightarrow> fetch_result" where
  "download_installeritem env item_pl managed_installs uninstalling =
     (let use_uninstaller = (uninstalling \<and> pk_uninstaller_item_location item_pl \<noteq> None);
          download_item_key =
            (if use_uninstaller then ''uninstaller_item_location'' else ''installer_item_location'');
          location = (if use_uninstaller then pk_uninstaller_item_location item_pl
                      else pk_installer_item_location item_pl)
      in if \<not> truthy_str location
         then MunkiDownloadError (''No '' @ download_item_key @ '' in item info.'')
         else (let pkgname = getInstallerItemBasename env (the location)
               in if cached_size env pkgname = None \<and>
                     \<not> enoughDiskSpace env item_pl managed_installs False
                  then MunkiDownloadError
                         (''Insufficient disk space to download and install '' @ pkgname)
                  else getResourceIfChangedAtomically env item_pl (the location)))"

section \<open>The resolution state\<close>

text \<open>An entry of \<^verbatim>\<open>installinfo['removals']\<close>.\<close>

record removalinfo =
  rm_name :: string
  rm_installed :: bool
  rm_display_name :: "string option"
  rm_description :: "string option"
  rm_unattended_uninstall :: "bool option"
  rm_packages :: "string list option"
  rm_uninstall_method :: "string option"
  rm_adobe_install_info :: "string option"
  rm_uninstaller_item :: "string option"
  rm_adobe_package_name :: "string option"
  rm_items_to_remove :: "string option"
  rm_remove_app_info :: "installs_item option"
  rm_uninstall_script :: "string option"
  rm_installed_version :: "string option"
  rm_RestartAction :: "string option"
  rm_installs :: "installs_item list option"
  rm_requires :: "strs option"
  rm_update_for :: "strs option"
  rm_optional :: "(string \<times> string) list"

text \<open>
  The dictionary \<^verbatim>\<open>installinfo\<close> that check() creates and every resolver function
  mutates, together with the module global \<^verbatim>\<open>PKGDATA\<close> (\<open>None\<close> while it is still the
  empty dictionary), which processRemoval mutates too.
\<close>

record installinfo =
  processed_installs :: "string list"
  processed_uninstalls :: "string list"
  managed_updates :: "string list"
  managed_installs :: "iteminfo list"
  removals :: "removalinfo list"
  PKGDATA :: "pkgdata option"

definition initial_installinfo :: installinfo where
  "initial_installinfo =
     \<lparr>processed_installs = [], processed_uninstalls = [], managed_updates = [],
      managed_installs = [], removals = [], PKGDATA = None\<rparr>"

text \<open>
  A call that uses recursion returns \<open>None\<close> when the recursion depth allowed is used up,
  \<open>Some (Inl e)\<close> when it raises \<open>e\<close>, and \<open>Some (Inr r)\<close> when it returns \<open>r\<close>.
\<close>

type_synonym 'a outcome = "(exc + 'a) option"

definition and_then :: "'a outcome \<Rightarrow> ('a \<Rightarrow> 'b outcome) \<Rightarrow> 'b outcome" where
  "and_then m f = (case m of None \<Rightarrow> None | Some (Inl e) \<Rightarrow> Some (Inl e) | Some (Inr x) \<Rightarrow> f x)"

definition returns :: "'a \<Rightarrow> 'a outcome" where
  "returns x = Some (Inr x)"

definition raises :: "exc \<Rightarrow> 'a outcome" where
  "raises e = Some (Inl e)"

definition lift :: "exc + 'a \<Rightarrow> 'a outcome" where
  "lift r = Some r"

type_synonym resolver = "string \<Rightarrow> string list \<Rightarrow> installinfo \<Rightarrow> (bool \<times> installinfo) outcome"

section \<open>processInstall\<close>

text \<open>The keys \<^verbatim>\<open>name\<close>, \<^verbatim>\<open>display_name\<close> and \<^verbatim>\<open>description\<close> that every record starts with.\<close>

definition base_iteminfo :: "pkginfo \<Rightarrow> iteminfo" where
  "base_iteminfo item_pl =
     (let name = (case pk_name item_pl of None \<Rightarrow> [] | Some n \<Rightarrow> n)
      in (blank_iteminfo name)
           \<lparr>ii_display_name := (case pk_display_name item_pl of None \<Rightarrow> name | Some d \<Rightarrow> d),
            ii_description := (case pk_description item_pl of None \<Rightarrow> [] | Some d \<Rightarrow> d)\<rparr>)"

definition optional_keys :: "string list" where
  "optional_keys =
     [''suppress_bundle_relocation'', ''installer_choices_xml'', ''installer_environment'',
      ''adobe_install_info'', ''installer_type'', ''adobe_package_name'', ''package_path'',
      ''blocking_applications'', ''preinstall_script'', ''postinstall_script'',
      ''items_to_copy'', ''copy_local'']"

text \<open>
  The loop over \<^verbatim>\<open>optional_keys\<close>; the keys \<^verbatim>\<open>RestartAction\<close>, \<^verbatim>\<open>installs\<close>,
  \<^verbatim>\<open>requires\<close>, \<^verbatim>\<open>update_for\<close> and \<^verbatim>\<open>force_install_after_date\<close> of that list are fields
  of their own.
\<close>

definition copy_optional_keys :: "pkginfo \<Rightarrow> iteminfo \<Rightarrow> iteminfo" where
  "copy_optional_keys item_pl iteminfo =
     iteminfo\<lparr>ii_RestartAction := pk_RestartAction item_pl,
              ii_installs := pk_installs item_pl,
              ii_requires := pk_requires item_pl,
              ii_update_for := pk_update_for item_pl,
              ii_force_install_after_date := pk_force_install_after_date item_pl,
              ii_optional := filter (\<lambda>(k, v). k \<in> set optional_keys) (pk_other item_pl)\<rparr>"

definition append_install :: "iteminfo \<Rightarrow> installinfo \<Rightarrow> installinfo" where
  "append_install iteminfo st = st\<lparr>managed_installs := managed_installs st @ [iteminfo]\<rparr>"

text \<open>
  \<^verbatim>\<open>
  for item in dependencies:
      success = processInstall(item, cataloglist, installinfo)
      if not success:
          dependenciesMet = False
  \<close>
  Every dependency is processed, also after one has failed.
\<close>

fun process_requires ::
  "resolver \<Rightarrow> string list \<Rightarrow> string list \<Rightarrow> installinfo \<Rightarrow> bool \<Rightarrow> (bool \<times> installinfo) outcome" where
  "process_requires processInstall_rec [] cataloglist st dependenciesMet =
     returns (dependenciesMet, st)"
| "process_requires processInstall_rec (item # dependencies) cataloglist st dependenciesMet =
     and_then (processInstall_rec item cataloglist st)
       (\<lambda>(success, st'). process_requires processInstall_rec dependencies cataloglist st'
                           (dependenciesMet \<and> success))"

text \<open>
  \<^verbatim>\<open>
  for update_item in update_list:
      unused_result = processInstall(update_item, cataloglist, installinfo)
  \<close>
\<close>

fun process_updates ::
  "resolver \<Rightarrow> string list \<Rightarrow> string list \<Rightarrow> installinfo \<Rightarrow> installinfo outcome" where
  "process_updates processInstall_rec [] cataloglist st = returns st"
| "process_updates processInstall_rec (update_item # update_list) cataloglist st =
     and_then (processInstall_rec update_item cataloglist st)
       (\<lambda>(unused_result, st'). process_updates processInstall_rec update_list cataloglist st')"

text \<open>
  The branch \<^verbatim>\<open>installed_state == 0\<close>: download, record, then pull in the updates.
  \<open>download_iteminfo\<close> is the record as it stands when download_installeritem is called; a
  failed download appends it with a note. When the manifest name embeds a version the code
  calls \<^verbatim>\<open>lookForUpdatesForVersion(manifestitemname_withoutversion, includedversion)\<close>
  without the catalog list, the third argument that function requires: Python raises
  TypeError, which none of the \<^verbatim>\<open>except\<close> clauses of the surrounding \<^verbatim>\<open>try\<close> catches.
\<close>

definition download_iteminfo :: "pkginfo \<Rightarrow> iteminfo" where
  "download_iteminfo item_pl =
     (base_iteminfo item_pl)
       \<lparr>ii_installer_item_size := Some (int_or (pk_installer_item_size item_pl) 0),
        ii_installed_size :=
          Some (int_or (pk_installed_size item_pl) (int_or (pk_installer_item_size item_pl) 0))\<rparr>"

text \<open>The record appended after a download that succeeded.\<close>

definition downloaded_iteminfo :: "'v env \<Rightarrow> pkginfo \<Rightarrow> bool \<Rightarrow> iteminfo" where
  "downloaded_iteminfo env item_pl downloaded =
     (let installer_item_size = int_or (pk_installer_item_size item_pl) 0;
          download_speed =
            (if downloaded
             then (if installer_item_size < 1024 then 0
                   else if download_seconds env item_pl = 0 then 0
                   else installer_item_size div download_seconds env item_pl)
             else 0);
          iteminfo2 = (download_iteminfo item_pl)
            \<lparr>ii_download_kbytes_per_sec := Some download_speed,
             ii_installer_item :=
               Some (getInstallerItemBasename env (the (pk_installer_item_location item_pl))),
             ii_installed := Some False,
             ii_version_to_install :=
               Some (case pk_version item_pl of None \<Rightarrow> ''UNKNOWN'' | Some v \<Rightarrow> v)\<rparr>;
          iteminfo3 =
            (if (pk_unattended_install item_pl \<or> pk_forced_install item_pl) \<and>
                \<not> truthy_str (pk_RestartAction item_pl)
             then iteminfo2\<lparr>ii_unattended_install := Some True\<rparr>
             else iteminfo2)
      in copy_optional_keys item_pl iteminfo3)"

definition install_absent ::
  "resolver \<Rightarrow> ('v::linorder) env \<Rightarrow> string \<Rightarrow> string \<Rightarrow> pkginfo \<Rightarrow> string list \<Rightarrow> installinfo
     \<Rightarrow> (bool \<times> installinfo) outcome" where
  "install_absent processInstall_rec env manifestitemname_withoutversion includedversion item_pl
       cataloglist st =
     (case download_installeritem env item_pl (managed_installs st) False of
        Fetched downloaded \<Rightarrow>
          (let st1 = append_install (downloaded_iteminfo env item_pl downloaded) st;
               version_to_install =
                 (case pk_version item_pl of None \<Rightarrow> ''UNKNOWN'' | Some v \<Rightarrow> v)
           in if includedversion \<noteq> []
              then raises (TypeError ''lookForUpdatesForVersion() takes exactly 3 arguments (2 given)'')
              else and_then (lift (lookForUpdates env manifestitemname_withoutversion cataloglist))
                (\<lambda>update_list.
                   and_then (lift (lookForUpdatesForVersion env manifestitemname_withoutversion
                                     version_to_install cataloglist))
                     (\<lambda>for_version.
                        and_then (process_updates processInstall_rec (update_list @ for_version)
                                    cataloglist st1)
                          (\<lambda>st2. returns (True, st2)))))
      | PackageVerificationError \<Rightarrow>
          returns (False, append_install
             ((download_iteminfo item_pl)
                \<lparr>ii_installed := Some False, ii_note := Some ''Integrity check failed''\<rparr>) st)
      | CurlDownloadError errmsg \<Rightarrow>
          returns (False, append_install
             ((download_iteminfo item_pl)
                \<lparr>ii_installed := Some False, ii_note := Some ''Download failed''\<rparr>) st)
      | MunkiDownloadError errmsg \<Rightarrow>
          returns (False, append_install
             ((download_iteminfo item_pl)
                \<lparr>ii_installed := Some False, ii_note := Some errmsg\<rparr>) st))"

text \<open>
  The branch for an item that is installed already (state 1) or in a newer version (state 2).
  The code writes \<^verbatim>\<open>'(newer than %s)'\<close> and tests for \<^verbatim>\<open>'(or newer)'\<close>.
\<close>

definition installed_version_of :: "'v env \<Rightarrow> int \<Rightarrow> pkginfo \<Rightarrow> string \<Rightarrow> string" where
  "installed_version_of env installed_state item_pl version =
     (if installed_state = 1 then version
      else (let v = getInstalledVersion env item_pl
            in if v = ''UNKNOWN'' then ''(newer than '' @ version @ '')'' else v))"

definition present_iteminfo :: "'v env \<Rightarrow> int \<Rightarrow> pkginfo \<Rightarrow> string \<Rightarrow> iteminfo" where
  "present_iteminfo env installed_state item_pl version =
     (base_iteminfo item_pl)
       \<lparr>ii_installed := Some True,
        ii_installed_size :=
          Some (int_or (pk_installed_size item_pl) (int_or (pk_installer_item_size item_pl) 0)),
        ii_installed_version := Some (installed_version_of env installed_state item_pl version)\<rparr>"

definition install_present ::
  "resolver \<Rightarrow> ('v::linorder) env \<Rightarrow> int \<Rightarrow> string \<Rightarrow> string \<Rightarrow> pkginfo \<Rightarrow> string list
     \<Rightarrow> installinfo \<Rightarrow> (bool \<times> installinfo) outcome" where
  "install_present processInstall_rec env installed_state manifestitemname_withoutversion
       includedversion item_pl cataloglist st =
     (case pk_version item_pl of
        None \<Rightarrow> raises (KeyError ''version'')
      | Some version \<Rightarrow>
          (let installed_version = installed_version_of env installed_state item_pl version;
               st1 = append_install (present_iteminfo env installed_state item_pl version) st;
               name = manifestitemname_withoutversion;
               update_list =
                 (if includedversion = []
                  then and_then (lift (lookForUpdates env name cataloglist))
                         (\<lambda>update_list.
                            if \<not> py_contains ''(or newer)'' installed_version
                            then and_then (lift (lookForUpdatesForVersion env name installed_version
                                                   cataloglist))
                                   (\<lambda>for_version. returns (update_list @ for_version))
                            else returns update_list)
                  else if compareVersions env (Some includedversion) (Some installed_version) = 1
                  then lift (lookForUpdatesForVersion env manifestitemname_withoutversion
                               includedversion cataloglist)
                  else returns [])
           in and_then update_list
                (\<lambda>update_list.
                   and_then (process_updates processInstall_rec update_list cataloglist st1)
                     (\<lambda>st2. returns (True, st2)))))"

definition requires_list :: "pkginfo \<Rightarrow> string list" where
  "requires_list item_pl =
     (case pk_requires item_pl of None \<Rightarrow> [] | Some (Str s) \<Rightarrow> [s] | Some (Strs l) \<Rightarrow> l)"

text \<open>
  The body of processInstall; \<open>processInstall_rec\<close> is the function itself one level
  deeper in the recursion.
\<close>

definition processInstall_body ::
  "resolver \<Rightarrow> ('v::linorder) env \<Rightarrow> string \<Rightarrow> string list \<Rightarrow> installinfo
     \<Rightarrow> (bool \<times> installinfo) outcome" where
  "processInstall_body processInstall_rec env manifestitem cataloglist st =
     (let manifestitemname = os_path_split_tail manifestitem
      in and_then (lift (nameAndVersion manifestitemname))
           (\<lambda>(manifestitemname_withoutversion, includedversion).
              if manifestitemname \<in> set (processed_installs st) then returns (True, st)
              else if manifestitemname_withoutversion \<in> set (processed_uninstalls st)
              then returns (False, st)
              else and_then (lift (getItemDetail env manifestitem cataloglist []))
                (\<lambda>found. case found of
                   None \<Rightarrow> returns (False, st)
                 | Some item_pl \<Rightarrow>
                     (let st1 = (if manifestitemname \<in> set (managed_updates st) then st
                                 else st\<lparr>processed_installs :=
                                           processed_installs st @ [manifestitemname]\<rparr>)
                      in if isItemInInstallInfo env item_pl (managed_installs st1) (pk_version item_pl)
                         then returns (True, st1)
                         else and_then (process_requires processInstall_rec (requires_list item_pl)
                                          cataloglist st1 True)
                           (\<lambda>(dependenciesMet, st2).
                              if \<not> dependenciesMet then returns (False, st2)
                              else (let installed_state = installedState env item_pl
                                    in if installed_state = 0
                                       then install_absent processInstall_rec env
                                              manifestitemname_withoutversion includedversion
                                              item_pl cataloglist st2
                                       else install_present processInstall_rec env installed_state
                                              manifestitemname_withoutversion includedversion
                                              item_pl cataloglist st2))))))"

text \<open>The first argument bounds the depth of the recursion.\<close>

fun processInstall ::
  "nat \<Rightarrow> ('v::linorder) env \<Rightarrow> string \<Rightarrow> string list \<Rightarrow> installinfo
     \<Rightarrow> (bool \<times> installinfo) outcome" where
  "processInstall 0 env manifestitem cataloglist st = None"
| "processInstall (Suc depth) env manifestitem cataloglist st =
     processInstall_body (processInstall depth env) env manifestitem cataloglist st"

section \<open>processManagedUpdate\<close>

definition processManagedUpdate ::
  "nat \<Rightarrow> ('v::linorder) env \<Rightarrow> string \<Rightarrow> string list \<Rightarrow> installinfo \<Rightarrow> installinfo outcome" where
  "processManagedUpdate depth env manifestitem cataloglist st =
     (let manifestitemname = os_path_split_tail manifestitem
      in if manifestitemname \<in> set (managed_updates st) then returns st
         else if manifestitemname \<in> set (processed_installs st) then returns st
         else if manifestitemname \<in> set (processed_uninstalls st) then returns st
         else and_then (lift (getItemDetail env manifestitem cataloglist []))
           (\<lambda>found. case found of
              None \<Rightarrow> returns st
            | Some item_pl \<Rightarrow>
                if someVersionInstalled env item_pl
                then and_then
                       (processInstall depth env manifestitem cataloglist
                          (st\<lparr>managed_updates := managed_updates st @ [manifestitemname]\<rparr>))
                       (\<lambda>(unused_result, st'). returns st')
                else returns st))"

section \<open>processRemoval\<close>

subsection \<open>Evidence that an item is installed\<close>

text \<open>
  evidenceThisIsInstalled builds \<^verbatim>\<open>PKGDATA\<close> on first use, so it returns the state too.
  \<open>found_all_installs\<close> is its first test: the item has an \<^verbatim>\<open>installs\<close> list, is not
  removed by receipts, and every path of the list exists.
\<close>

definition found_all_installs :: "'v env \<Rightarrow> pkginfo \<Rightarrow> bool" where
  "found_all_installs env item_pl =
     (case pk_installs item_pl of
        None \<Rightarrow> False
      | Some installitems \<Rightarrow>
          pk_uninstall_method item_pl \<noteq> Some ''removepackages'' \<and>
          list_all (\<lambda>item. case inst_path item of
                             None \<Rightarrow> True
                           | Some path \<Rightarrow> path_exists env path) installitems)"

definition evidenceThisIsInstalled ::
  "'v env \<Rightarrow> pkginfo \<Rightarrow> installinfo \<Rightarrow> exc + bool \<times> installinfo" where
  "evidenceThisIsInstalled env item_pl st =
     (if found_all_installs env item_pl
      then Inr (True, st)
      else (case pk_receipts item_pl of
              Some (r # rs) \<Rightarrow>
                (let pkgdata = (case PKGDATA st of
                                  None \<Rightarrow> analyzeInstalledPkgs env
                                | Some d \<Rightarrow> d);
                     st' = st\<lparr>PKGDATA := Some pkgdata\<rparr>
                 in case pk_name item_pl of
                      None \<Rightarrow> Inl (KeyError ''name'')
                    | Some n \<Rightarrow> Inr (n \<in> set (installed_names pkgdata), st'))
            | _ \<Rightarrow> Inr (False, st)))"

text \<open>
  \<^verbatim>\<open>
  for item in infoitems:
      munkicommon.display_debug2('Considering item %s-%s for removal info'
                                 % (item['name'], item['version']))
      if evidenceThisIsInstalled(item):
          installEvidence = True
          break
  \<close>
\<close>

fun find_install_evidence ::
  "'v env \<Rightarrow> pkginfo list \<Rightarrow> installinfo \<Rightarrow> exc + pkginfo option \<times> installinfo" where
  "find_install_evidence env [] st = Inr (None, st)"
| "find_install_evidence env (item # infoitems) st =
     (if pk_name item = None then Inl (KeyError ''name'')
      else if pk_version item = None then Inl (KeyError ''version'')
      else (case evidenceThisIsInstalled env item st of
              Inl e \<Rightarrow> Inl e
            | Inr (True, st') \<Rightarrow> Inr (Some item, st')
            | Inr (False, st') \<Rightarrow> find_install_evidence env infoitems st'))"

subsection \<open>Receipts and their reference counts\<close>

definition getReceiptsToRemove :: "pkginfo \<Rightarrow> installinfo \<Rightarrow> exc + string list" where
  "getReceiptsToRemove item st =
     (case pk_name item of
        None \<Rightarrow> Inl (KeyError ''name'')
      | Some name \<Rightarrow>
          (case PKGDATA st of
             None \<Rightarrow> Inl (KeyError ''receipts_for_name'')
           | Some d \<Rightarrow>
               (case map_of (receipts_for_name d) name of
                  None \<Rightarrow> Inr []
                | Some pkgs \<Rightarrow> Inr pkgs)))"

text \<open>
  \<^verbatim>\<open>
  for pkg in packagesToRemove:
      if pkg in PKGDATA['pkg_references']:
          PKGDATA['pkg_references'][pkg].remove(iteminfo['name'])
          if len(PKGDATA['pkg_references'][pkg]) == 0:
              packagesToReallyRemove.append(pkg)
  \<close>
  \<^verbatim>\<open>list.remove\<close> deletes the first occurrence and raises ValueError when there is none.
\<close>

fun remove_references ::
  "string \<Rightarrow> string list \<Rightarrow> (string \<times> string list) list \<Rightarrow> string list
     \<Rightarrow> exc + string list \<times> (string \<times> string list) list" where
  "remove_references name [] references packagesToReallyRemove =
     Inr (packagesToReallyRemove, references)"
| "remove_references name (pkg # packagesToRemove) references packagesToReallyRemove =
     (case map_of references pkg of
        None \<Rightarrow> remove_references name packagesToRemove references packagesToReallyRemove
      | Some names \<Rightarrow>
          if name \<in> set names
          then remove_references name packagesToRemove
                 (AList.update pkg (remove1 name names) references)
                 (if remove1 name names = [] then packagesToReallyRemove @ [pkg]
                  else packagesToReallyRemove)
          else Inl (ValueError ''list.remove(x): x not in list''))"

subsection \<open>The uninstall method\<close>

text \<open>
  Whether \<^verbatim>\<open>uninstall_item\<close> was set, and \<^verbatim>\<open>packagesToRemove\<close>.
\<close>

definition choose_uninstall ::
  "'v env \<Rightarrow> pkginfo \<Rightarrow> installinfo \<Rightarrow> exc + bool \<times> string list" where
  "choose_uninstall env item st =
     (case pk_uninstall_method item of
        None \<Rightarrow> Inr (False, [])
      | Some uninstallmethod \<Rightarrow>
          if \<not> pk_uninstallable item then Inr (False, [])
          else if uninstallmethod = ''removepackages''
          then (case getReceiptsToRemove item st of
                  Inl e \<Rightarrow> Inl e
                | Inr packagesToRemove \<Rightarrow> Inr (packagesToRemove \<noteq> [], packagesToRemove))
          else if take 5 uninstallmethod = ''Adobe'' then Inr (True, [])
          else if uninstallmethod \<in> {''remove_copied_items'', ''remove_app'', ''uninstall_script''}
          then Inr (True, [])
          else Inr (path_exists env uninstallmethod \<and> path_executable env uninstallmethod, []))"

subsection \<open>Dependent items\<close>

text \<open>\<^verbatim>\<open>x in item_pl['requires']\<close>: membership in a list, substring search in a string.\<close>

definition strs_contains :: "string \<Rightarrow> strs \<Rightarrow> bool" where
  "strs_contains x v = (case v of Str s \<Rightarrow> py_contains x s | Strs l \<Rightarrow> x \<in> set l)"

text \<open>
  The inner loop over the items of one catalog file. It returns False when it left the
  loop by \<^verbatim>\<open>break\<close>, the names processed so far, and the state. The name of an item
  whose removal failed is not recorded.
\<close>

fun remove_dependents_of_catalog ::
  "resolver \<Rightarrow> 'v env \<Rightarrow> string list \<Rightarrow> pkginfo list \<Rightarrow> string list \<Rightarrow> string option list
     \<Rightarrow> installinfo \<Rightarrow> (bool \<times> string option list \<times> installinfo) outcome" where
  "remove_dependents_of_catalog processRemoval_rec env targets [] cataloglist processednames st =
     returns (True, processednames, st)"
| "remove_dependents_of_catalog processRemoval_rec env targets (item_pl # catalog_pl) cataloglist
       processednames st =
     (if pk_name item_pl \<in> set processednames
      then remove_dependents_of_catalog processRemoval_rec env targets catalog_pl cataloglist
             processednames st
      else if (case pk_requires item_pl of
                 None \<Rightarrow> False
               | Some req \<Rightarrow> list_ex (\<lambda>t. strs_contains t req) targets)
      then and_then (lift (evidenceThisIsInstalled env item_pl st))
             (\<lambda>(installed, st1).
                if installed
                then (case pk_name item_pl of
                        None \<Rightarrow> raises (AttributeError ''NoneType object has no attribute rfind'')
                      | Some name \<Rightarrow>
                          and_then (processRemoval_rec name cataloglist st1)
                            (\<lambda>(success, st2).
                               if \<not> success then returns (False, processednames, st2)
                               else remove_dependents_of_catalog processRemoval_rec env targets
                                      catalog_pl cataloglist (processednames @ [pk_name item_pl])
                                      st2))
                else remove_dependents_of_catalog processRemoval_rec env targets catalog_pl
                       cataloglist (processednames @ [pk_name item_pl]) st1)
      else remove_dependents_of_catalog processRemoval_rec env targets catalog_pl cataloglist
             (processednames @ [pk_name item_pl]) st)"

text \<open>
  The outer loop over the catalog files. A \<^verbatim>\<open>break\<close> leaves the inner loop only: the
  remaining catalogs are still scanned, with \<^verbatim>\<open>dependentitemsremoved\<close> False.
\<close>

fun remove_dependents ::
  "resolver \<Rightarrow> 'v env \<Rightarrow> string list \<Rightarrow> string list \<Rightarrow> string list \<Rightarrow> string option list
     \<Rightarrow> installinfo \<Rightarrow> bool \<Rightarrow> (bool \<times> installinfo) outcome" where
  "remove_dependents processRemoval_rec env targets [] cataloglist processednames st
       dependentitemsremoved = returns (dependentitemsremoved, st)"
| "remove_dependents processRemoval_rec env targets (catalogname # rest) cataloglist processednames st
       dependentitemsremoved =
     and_then (lift (readPlist_catalog env catalogname))
       (\<lambda>catalog_pl.
          and_then (remove_dependents_of_catalog processRemoval_rec env targets catalog_pl
                      cataloglist processednames st)
            (\<lambda>(finished, processednames', st').
               remove_dependents processRemoval_rec env targets rest cataloglist processednames' st'
                 (dependentitemsremoved \<and> finished)))"

subsection \<open>Recording the removal\<close>

definition removal_optional_keys :: "string list" where
  "removal_optional_keys = [''blocking_applications'', ''preuninstall_script'', ''postuninstall_script'']"

definition blank_removalinfo :: "string \<Rightarrow> bool \<Rightarrow> removalinfo" where
  "blank_removalinfo n inst =
     \<lparr>rm_name = n, rm_installed = inst, rm_display_name = None, rm_description = None,
      rm_unattended_uninstall = None, rm_packages = None, rm_uninstall_method = None,
      rm_adobe_install_info = None, rm_uninstaller_item = None, rm_adobe_package_name = None,
      rm_items_to_remove = None, rm_remove_app_info = None, rm_uninstall_script = None,
      rm_installed_version = None, rm_RestartAction = None, rm_installs = None,
      rm_requires = None, rm_update_for = None, rm_optional = []\<rparr>"

text \<open>
  The record as it stands before the package references are looked at; \<^verbatim>\<open>installed\<close> is
  set to True only at the end, and is written here already.
\<close>

definition removal_iteminfo :: "pkginfo \<Rightarrow> removalinfo" where
  "removal_iteminfo uninstall_item =
     (let iteminfo = (blank_removalinfo (case pk_name uninstall_item of None \<Rightarrow> [] | Some n \<Rightarrow> n) True)
            \<lparr>rm_display_name :=
               Some (case pk_display_name uninstall_item of None \<Rightarrow> [] | Some d \<Rightarrow> d),
             rm_description := Some ''Will be removed.'',
             rm_installs := pk_installs uninstall_item,
             rm_requires := pk_requires uninstall_item,
             rm_update_for := pk_update_for uninstall_item,
             rm_optional :=
               filter (\<lambda>(k, v). k \<in> set removal_optional_keys) (pk_other uninstall_item)\<rparr>
      in if (pk_unattended_uninstall uninstall_item \<or> pk_forced_uninstall uninstall_item) \<and>
            \<not> truthy_str (pk_RestartAction uninstall_item)
         then iteminfo\<lparr>rm_unattended_uninstall := Some True\<rparr>
         else iteminfo)"

text \<open>
  The keys that depend on the uninstall method. \<open>None\<close> is the \<^verbatim>\<open>return False\<close> after a
  failed download of an Adobe uninstaller.
\<close>

definition method_keys ::
  "'v env \<Rightarrow> string \<Rightarrow> pkginfo \<Rightarrow> installinfo \<Rightarrow> removalinfo \<Rightarrow> exc + removalinfo option" where
  "method_keys env uninstallmethod item st iteminfo =
     (if take 5 uninstallmethod = ''Adobe''
      then (case map_of (pk_other item) ''adobe_install_info'' of
              Some info \<Rightarrow> Inr (Some (iteminfo\<lparr>rm_adobe_install_info := Some info\<rparr>))
            | None \<Rightarrow>
                (case (if pk_uninstaller_item_location item \<noteq> None
                       then pk_uninstaller_item_location item
                       else pk_installer_item_location item) of
                   None \<Rightarrow> Inl (KeyError ''installer_item_location'')
                 | Some location \<Rightarrow>
                     (case download_installeritem env item (managed_installs st) True of
                        Fetched downloaded \<Rightarrow>
                          Inr (Some (iteminfo
                            \<lparr>rm_uninstaller_item := Some (os_path_split_tail location),
                             rm_adobe_package_name :=
                               Some (case map_of (pk_other item) ''adobe_package_name'' of
                                       None \<Rightarrow> [] | Some n \<Rightarrow> n)\<rparr>))
                      | _ \<Rightarrow> Inr None)))
      else if uninstallmethod = ''remove_copied_items''
      then Inr (Some (iteminfo\<lparr>rm_items_to_remove :=
                 Some (case map_of (pk_other item) ''items_to_copy'' of None \<Rightarrow> [] | Some v \<Rightarrow> v)\<rparr>))
      else if uninstallmethod = ''remove_app''
      then Inr (Some (case pk_installs item of
                        Some (i # installitems) \<Rightarrow> iteminfo\<lparr>rm_remove_app_info := Some i\<rparr>
                      | _ \<Rightarrow> iteminfo))
      else if uninstallmethod = ''uninstall_script''
      then Inr (Some (iteminfo\<lparr>rm_uninstall_script :=
                 Some (case map_of (pk_other item) ''uninstall_script'' of None \<Rightarrow> [] | Some v \<Rightarrow> v)\<rparr>))
      else Inr (Some iteminfo))"

fun process_update_removals ::
  "resolver \<Rightarrow> string list \<Rightarrow> string list \<Rightarrow> installinfo \<Rightarrow> installinfo outcome" where
  "process_update_removals processRemoval_rec [] cataloglist st = returns st"
| "process_update_removals processRemoval_rec (update_item # update_list) cataloglist st =
     and_then (processRemoval_rec update_item cataloglist st)
       (\<lambda>(unused_result, st'). process_update_removals processRemoval_rec update_list cataloglist st')"

subsection \<open>The function\<close>

text \<open>\<^verbatim>\<open>[nameAndVersion(item)[0] for item in installinfo['processed_installs']]\<close>.\<close>

fun names_without_version :: "string list \<Rightarrow> exc + string list" where
  "names_without_version [] = Inr []"
| "names_without_version (item # rest) =
     (case nameAndVersion item of
        Inl e \<Rightarrow> Inl e
      | Inr (name, vers) \<Rightarrow>
          (case names_without_version rest of
             Inl e \<Rightarrow> Inl e
           | Inr names \<Rightarrow> Inr (name # names)))"

definition append_removal :: "removalinfo \<Rightarrow> installinfo \<Rightarrow> installinfo" where
  "append_removal iteminfo st = st\<lparr>removals := removals st @ [iteminfo]\<rparr>"

text \<open>
  What processRemoval does once the dependent items are removed, in three steps.
  First it drops the item's reference to each of its packages and collects the packages
  that no item refers to any more (\<^verbatim>\<open>packagesToReallyRemove\<close>); \<^verbatim>\<open>PKGDATA\<close> stays changed
  whatever happens next.
\<close>

definition drop_references ::
  "string \<Rightarrow> string list \<Rightarrow> installinfo \<Rightarrow> (string list \<times> installinfo) outcome" where
  "drop_references name packagesToRemove st =
     (if packagesToRemove \<noteq> []
      then (case PKGDATA st of
              None \<Rightarrow> raises (KeyError ''pkg_references'')
            | Some d \<Rightarrow>
                and_then (lift (remove_references name packagesToRemove (pkg_references d) []))
                  (\<lambda>(packagesToReallyRemove, references).
                     returns (packagesToReallyRemove,
                              st\<lparr>PKGDATA := Some (d\<lparr>pkg_references := references\<rparr>)\<rparr>)))
      else returns ([], st))"

text \<open>
  Last it fills in the keys of the uninstall method, removes the updates of the item and
  appends the record.
\<close>

definition finish_removal ::
  "resolver \<Rightarrow> 'v env \<Rightarrow> pkginfo \<Rightarrow> string \<Rightarrow> string \<Rightarrow> string \<Rightarrow> removalinfo \<Rightarrow> string list
     \<Rightarrow> installinfo \<Rightarrow> (bool \<times> installinfo) outcome" where
  "finish_removal processRemoval_rec env uninstall_item name version uninstallmethod iteminfo1
       cataloglist st1 =
     and_then (lift (method_keys env uninstallmethod uninstall_item st1
                       (iteminfo1\<lparr>rm_uninstall_method := Some uninstallmethod\<rparr>)))
       (\<lambda>keys. case keys of
          None \<Rightarrow> returns (False, st1)
        | Some iteminfo2 \<Rightarrow>
            and_then (lift (lookForUpdates env name cataloglist))
              (\<lambda>l1. and_then (lift (lookForUpdates env (name @ ''-'' @ version) cataloglist))
                (\<lambda>l2. and_then (lift (lookForUpdates env (name @ ''--'' @ version) cataloglist))
                  (\<lambda>l3. and_then (process_update_removals processRemoval_rec
                                     (l1 @ l2 @ l3) cataloglist st1)
                    (\<lambda>st2. returns (True, append_removal
                         (iteminfo2\<lparr>rm_installed_version := Some version,
                                    rm_RestartAction := pk_RestartAction uninstall_item\<rparr>)
                         st2))))))"

text \<open>
  In between, a removal by receipts that is left with no package of its own fails:
  \<^verbatim>\<open>
  if packagesToReallyRemove:
      iteminfo['packages'] = packagesToReallyRemove
  else:
      return False
  \<close>
\<close>

definition record_removal ::
  "resolver \<Rightarrow> 'v env \<Rightarrow> pkginfo \<Rightarrow> string \<Rightarrow> string \<Rightarrow> string \<Rightarrow> string list \<Rightarrow> string list
     \<Rightarrow> installinfo \<Rightarrow> (bool \<times> installinfo) outcome" where
  "record_removal processRemoval_rec env uninstall_item name version uninstallmethod packagesToRemove
       cataloglist st =
     and_then (drop_references name packagesToRemove st)
       (\<lambda>(packagesToReallyRemove, st1).
          if packagesToRemove \<noteq> [] \<and> packagesToReallyRemove = [] then returns (False, st1)
          else finish_removal processRemoval_rec env uninstall_item name version uninstallmethod
                 (if packagesToRemove \<noteq> []
                  then (removal_iteminfo uninstall_item)\<lparr>rm_packages := Some packagesToReallyRemove\<rparr>
                  else removal_iteminfo uninstall_item)
                 cataloglist st1)"

text \<open>
  The candidates for removal: the one version named in the manifest, or every version
  of the item in the catalogs.
\<close>

definition removal_infoitems ::
  "('v::linorder) env \<Rightarrow> string \<Rightarrow> string \<Rightarrow> string list \<Rightarrow> exc + pkginfo list" where
  "removal_infoitems env manifestitemname includedversion cataloglist =
     (if includedversion \<noteq> []
      then (case getItemDetail env manifestitemname cataloglist includedversion of
              Inl e \<Rightarrow> Inl e
            | Inr None \<Rightarrow> Inr []
            | Inr (Some item_pl) \<Rightarrow> Inr [item_pl])
      else getAllItemsWithName env manifestitemname cataloglist)"

text \<open>
  The removal of an item for which install evidence was found. \<open>find_install_evidence\<close>
  returns only an item that has a name and a version (any other has raised KeyError
  there), so the branches for a missing key below are never taken.
\<close>

definition remove_installed_item ::
  "resolver \<Rightarrow> 'v env \<Rightarrow> pkginfo \<Rightarrow> string list \<Rightarrow> installinfo \<Rightarrow> (bool \<times> installinfo) outcome" where
  "remove_installed_item processRemoval_rec env item cataloglist st2 =
     and_then (lift (choose_uninstall env item st2))
       (\<lambda>(have_uninstall_item, packagesToRemove).
          if \<not> have_uninstall_item then returns (False, st2)
          else (case (pk_name item, pk_version item, pk_uninstall_method item) of
                  (Some name, Some version, Some uninstallmethod) \<Rightarrow>
                    and_then
                      (remove_dependents processRemoval_rec env
                         [name, name @ ''-'' @ version, name @ ''--'' @ version]
                         cataloglist cataloglist [] st2 True)
                      (\<lambda>(dependentitemsremoved, st3).
                         if \<not> dependentitemsremoved then returns (False, st3)
                         else record_removal processRemoval_rec env item name version
                                uninstallmethod packagesToRemove cataloglist st3)
                | (None, _, _) \<Rightarrow> raises (KeyError ''name'')
                | (_, None, _) \<Rightarrow> raises (KeyError ''version'')
                | _ \<Rightarrow> raises (KeyError ''uninstall_method'')))"

text \<open>
  What processRemoval does with a name that it has just marked as processed for uninstall.
\<close>

definition remove_marked ::
  "resolver \<Rightarrow> ('v::linorder) env \<Rightarrow> string \<Rightarrow> string \<Rightarrow> string list \<Rightarrow> installinfo
     \<Rightarrow> (bool \<times> installinfo) outcome" where
  "remove_marked processRemoval_rec env manifestitemname includedversion cataloglist st1 =
     and_then (lift (removal_infoitems env manifestitemname includedversion cataloglist))
       (\<lambda>infoitems.
          if infoitems = [] then returns (False, st1)
          else and_then (lift (find_install_evidence env infoitems st1))
            (\<lambda>(found, st2). case found of
               None \<Rightarrow> returns (True, append_removal (blank_removalinfo manifestitemname False) st2)
             | Some item \<Rightarrow> remove_installed_item processRemoval_rec env item cataloglist st2))"

definition processRemoval_body ::
  "resolver \<Rightarrow> ('v::linorder) env \<Rightarrow> string \<Rightarrow> string list \<Rightarrow> installinfo
     \<Rightarrow> (bool \<times> installinfo) outcome" where
  "processRemoval_body processRemoval_rec env manifestitem cataloglist st =
     (let manifestitemname_withversion = os_path_split_tail manifestitem
      in and_then (lift (nameAndVersion manifestitemname_withversion))
           (\<lambda>(manifestitemname, includedversion).
              and_then (lift (names_without_version (processed_installs st)))
                (\<lambda>install_names.
                   if manifestitemname \<in> set install_names then returns (False, st)
                   else if manifestitemname \<in> set (processed_uninstalls st) then returns (True, st)
                   else remove_marked processRemoval_rec env manifestitemname includedversion
                          cataloglist
                          (st\<lparr>processed_uninstalls :=
                                processed_uninstalls st @ [manifestitemname]\<rparr>))))"

fun processRemoval ::
  "nat \<Rightarrow> ('v::linorder) env \<Rightarrow> string \<Rightarrow> string list \<Rightarrow> installinfo
     \<Rightarrow> (bool \<times> installinfo) outcome" where
  "processRemoval 0 env manifestitem cataloglist st = None"
| "processRemoval (Suc depth) env manifestitem cataloglist st =
     processRemoval_body (processRemoval depth env) env manifestitem cataloglist st"

section \<open>A run: a sequence of requests\<close>

text \<open>
  processManifestForKey and check() call the three functions once for each name of a
  manifest list, one after the other, on the same \<^verbatim>\<open>installinfo\<close> and without looking at
  the result. A request is one such call, with the catalog list it is made with.
\<close>

datatype request =
    Install string "string list"
  | Removal string "string list"
  | ManagedUpdate string "string list"

fun process_request ::
  "nat \<Rightarrow> ('v::linorder) env \<Rightarrow> request \<Rightarrow> installinfo \<Rightarrow> installinfo outcome" where
  "process_request depth env (Install item cataloglist) st =
     and_then (processInstall depth env item cataloglist st) (\<lambda>(unused_result, st'). returns st')"
| "process_request depth env (Removal item cataloglist) st =
     and_then (processRemoval depth env item cataloglist st) (\<lambda>(unused_result, st'). returns st')"
| "process_request depth env (ManagedUpdate item cataloglist) st =
     processManagedUpdate depth env item cataloglist st"

fun process_requests ::
  "nat \<Rightarrow> ('v::linorder) env \<Rightarrow> request list \<Rightarrow> installinfo \<Rightarrow> installinfo outcome" where
  "process_requests depth env [] st = returns st"
| "process_requests depth env (request # rest) st =
     and_then (process_request depth env request st) (process_requests depth env rest)"

section \<open>Vocabulary for the properties\<close>

text \<open>
  What a call of processInstall with catalog list \<open>cataloglist\<close> may change: it appends to
  \<^verbatim>\<open>processed_installs\<close> and \<^verbatim>\<open>managed_installs\<close> and touches nothing else. A name it
  appends to \<^verbatim>\<open>processed_installs\<close> is not a managed update, its base name is not
  processed for uninstall, and it is the last path component of a name that getItemDetail
  finds in the catalogs.
\<close>

definition install_extends ::
  "('v::linorder) env \<Rightarrow> string list \<Rightarrow> installinfo \<Rightarrow> installinfo \<Rightarrow> bool" where
  "install_extends env cataloglist st st' =
     (managed_updates st' = managed_updates st \<and>
      processed_uninstalls st' = processed_uninstalls st \<and>
      removals st' = removals st \<and>
      PKGDATA st' = PKGDATA st \<and>
      (\<exists>names. processed_installs st' = processed_installs st @ names \<and>
         (\<forall>x \<in> set names.
            x \<notin> set (managed_updates st) \<and>
            (\<exists>b v. nameAndVersion x = Inr (b, v) \<and> b \<notin> set (processed_uninstalls st)) \<and>
            (\<exists>m item. os_path_split_tail m = x \<and>
                       getItemDetail env m cataloglist [] = Inr (Some item)))) \<and>
      (\<exists>records. managed_installs st' = managed_installs st @ records))"

text \<open>
  What a call of processRemoval may change: it appends to \<^verbatim>\<open>processed_uninstalls\<close> and
  \<^verbatim>\<open>removals\<close> and updates \<^verbatim>\<open>PKGDATA\<close>. A name it appends to
  \<^verbatim>\<open>processed_uninstalls\<close> is not the base name of any processed install.
\<close>

definition removal_extends :: "installinfo \<Rightarrow> installinfo \<Rightarrow> bool" where
  "removal_extends st st' =
     (managed_updates st' = managed_updates st \<and>
      processed_installs st' = processed_installs st \<and>
      managed_installs st' = managed_installs st \<and>
      (\<exists>names. processed_uninstalls st' = processed_uninstalls st @ names \<and>
         (\<forall>x \<in> set names. \<forall>y \<in> set (processed_installs st).
            \<forall>b v. nameAndVersion y = Inr (b, v) \<longrightarrow> b \<noteq> x)) \<and>
      (\<exists>records. removals st' = removals st @ records))"

text \<open>
  The invariant of the two name lists: every processed install has a base name, and that
  base name is not processed for uninstall.
\<close>

definition no_conflict :: "installinfo \<Rightarrow> bool" where
  "no_conflict st =
     list_all (\<lambda>x. case nameAndVersion x of
                     Inl e \<Rightarrow> False
                   | Inr (b, v) \<Rightarrow> b \<notin> set (processed_uninstalls st))
       (processed_installs st)"

text \<open>The test by which processRemoval refuses a name: its base name is that of a processed install.\<close>

definition removal_refused :: "installinfo \<Rightarrow> string \<Rightarrow> bool" where
  "removal_refused st manifestitem =
     (case nameAndVersion (os_path_split_tail manifestitem) of
        Inl e \<Rightarrow> False
      | Inr (manifestitemname, includedversion) \<Rightarrow>
          (case names_without_version (processed_installs st) of
             Inl e \<Rightarrow> False
           | Inr install_names \<Rightarrow> manifestitemname \<in> set install_names))"

text \<open>
  The test of the dependents loop, \<^verbatim>\<open>name in item_pl['requires']\<close> for one of the three
  forms of the name, and the case in which the loop removes nothing: no item of the catalogs
  that requires the target shows evidence of being installed.
\<close>

definition requires_one_of :: "string list \<Rightarrow> pkginfo \<Rightarrow> bool" where
  "requires_one_of targets item_pl =
     (case pk_requires item_pl of
        None \<Rightarrow> False
      | Some req \<Rightarrow> list_ex (\<lambda>t. strs_contains t req) targets)"

definition no_installed_dependent ::
  "'v env \<Rightarrow> string list \<Rightarrow> string list \<Rightarrow> installinfo \<Rightarrow> bool" where
  "no_installed_dependent env targets cataloglist st =
     list_all (\<lambda>catalogname.
                 case readPlist_catalog env catalogname of
                   Inl e \<Rightarrow> True
                 | Inr catalog_pl \<Rightarrow>
                     list_all (\<lambda>item_pl.
                                 requires_one_of targets item_pl \<longrightarrow>
                                 (case evidenceThisIsInstalled env item_pl st of
                                    Inl e \<Rightarrow> False
                                  | Inr (installed, st') \<Rightarrow> \<not> installed)) catalog_pl)
       cataloglist"

section \<open>A sample environment\<close>

text \<open>
  A machine with one catalog, \<^verbatim>\<open>production\<close>, built by makeCatalogDB from the given items.
  Versions are compared by the number their digits spell; no file exists on disk; one shared
  receipt is installed; every download succeeds.
\<close>

definition digit_value :: "char \<Rightarrow> nat option" where
  "digit_value c = map_of (zip ''0123456789'' [0 ..< 10]) c"

fun digits_number :: "nat \<Rightarrow> string \<Rightarrow> nat" where
  "digits_number acc [] = acc"
| "digits_number acc (c # cs) =
     digits_number (case digit_value c of None \<Rightarrow> acc | Some d \<Rightarrow> 10 * acc + d) cs"

definition sample_version_key :: "string option \<Rightarrow> nat" where
  "sample_version_key v = (case v of None \<Rightarrow> 0 | Some s \<Rightarrow> digits_number 0 s)"

definition sample_pkgdata :: pkgdata where
  "sample_pkgdata =
     \<lparr>receipts_for_name = [(''Office'', [''com.example.shared'']), (''Word'', [''com.example.shared'']),
                           (''Plugin'', [''com.example.plugin''])],
      installed_names = [''Office'', ''Word'', ''Plugin''],
      pkg_references = [(''com.example.shared'', [''Office'', ''Word'']),
                        (''com.example.plugin'', [''Plugin''])]\<rparr>"

definition sample_env :: "pkginfo list \<Rightarrow> nat env" where
  "sample_env catalogitems =
     \<lparr>CATALOG = [(''production'', fst (makeCatalogDB remdups catalogitems))],
      MACHINE_os_vers = ''10.6.8'',
      MACHINE_arch = ''i386'',
      MunkiLooseVersion = sample_version_key,
      list_set = remdups,
      compareItemVersion = (\<lambda>item. Some 0),
      INSTALLEDPKGS = [(''com.example.shared'', ''1.0'')],
      softwareUpdateList = [],
      getInstalledVersion = (\<lambda>item. ''UNKNOWN''),
      path_exists = (\<lambda>path. False),
      path_executable = (\<lambda>path. False),
      urlparse_path = (\<lambda>url. url),
      cached_size = (\<lambda>name. None),
      getAvailableDiskSpace = 100000000,
      getResourceIfChangedAtomically = (\<lambda>item location. Fetched True),
      download_seconds = (\<lambda>item. 1),
      readPlist_catalog = (\<lambda>catalogname. if catalogname = ''production''
                                           then Inr (snd (makeCatalogDB remdups catalogitems))
                                           else Inl NSPropertyListSerializationException),
      analyzeInstalledPkgs = sample_pkgdata\<rparr>"

text \<open>Sample catalog items.\<close>

definition item_a :: pkginfo where
  "item_a = blank_pkginfo ''a'' ''1''"

definition item_Foo :: pkginfo where
  "item_Foo = (blank_pkginfo ''Foo'' ''1.0'')\<lparr>pk_requires := Some (Strs [''Bar''])\<rparr>"

definition item_Baz :: pkginfo where
  "item_Baz = blank_pkginfo ''Baz'' ''1.0''"

definition item_Firefox :: pkginfo where
  "item_Firefox = (blank_pkginfo ''Firefox'' ''1.0'')
     \<lparr>pk_receipts := Some [\<lparr>packageid = Some ''org.mozilla.firefox'', receipt_version = Some ''1.0''\<rparr>],
      pk_installer_item_location := Some ''Firefox-1.0.dmg''\<rparr>"

definition item_Office :: pkginfo where
  "item_Office = (blank_pkginfo ''Office'' ''1.0'')
     \<lparr>pk_receipts := Some [\<lparr>packageid = Some ''com.example.shared'', receipt_version = Some ''1.0''\<rparr>],
      pk_uninstallable := True,
      pk_uninstall_method := Some ''removepackages''\<rparr>"

definition item_Word :: pkginfo where
  "item_Word = (blank_pkginfo ''Word'' ''1.0'')
     \<lparr>pk_receipts := Some [\<lparr>packageid = Some ''com.example.shared'', receipt_version = Some ''1.0''\<rparr>],
      pk_uninstallable := True,
      pk_uninstall_method := Some ''removepackages''\<rparr>"

definition item_Plugin :: pkginfo where
  "item_Plugin = (blank_pkginfo ''Plugin'' ''1.0'')
     \<lparr>pk_receipts := Some [\<lparr>packageid = Some ''com.example.plugin'', receipt_version = Some ''1.0''\<rparr>],
      pk_requires := Some (Strs [''Office'']),
      pk_uninstallable := True,
      pk_uninstall_method := Some ''removepackages''\<rparr>"

text \<open>The two name lists and the result of a call, for reading off what a run did.\<close>

definition names_after :: "installinfo outcome \<Rightarrow> (string list \<times> string list) option" where
  "names_after r =
     (case r of
        Some (Inr st) \<Rightarrow> Some (processed_installs st, processed_uninstalls st)
      | _ \<Rightarrow> None)"

definition result_of :: "(bool \<times> installinfo) outcome \<Rightarrow> bool option" where
  "result_of r = (case r of Some (Inr (b, st)) \<Rightarrow> Some b | _ \<Rightarrow> None)"

definition state_of :: "(bool \<times> installinfo) outcome \<Rightarrow> installinfo outcome" where
  "state_of r = and_then r (\<lambda>(b, st). returns st)"

definition state_after :: "installinfo outcome \<Rightarrow> installinfo" where
  "state_after r = (case r of Some (Inr st) \<Rightarrow> st | _ \<Rightarrow> initial_installinfo)"

text \<open>The state after a run that installs Baz, and after a run that processes it as a managed update.\<close>

definition after_install_Baz :: installinfo where
  "after_install_Baz =
     state_after (process_requests 2 (sample_env [item_Baz])
                    [Install ''Baz'' [''production'']] initial_installinfo)"

definition after_update_Baz :: installinfo where
  "after_update_Baz =
     state_after (processManagedUpdate 1 (sample_env [item_Baz]) ''Baz'' [''production'']
                    initial_installinfo)"

definition after_update_and_removal_Baz :: installinfo where
  "after_update_and_removal_Baz =
     state_after (state_of (processRemoval 1 (sample_env [item_Baz]) ''Baz'' [''production'']
                              after_update_Baz))"

text \<open>The state in which processInstall marks a name that it has found.\<close>

definition mark_processed :: "string \<Rightarrow> installinfo \<Rightarrow> installinfo" where
  "mark_processed manifestitemname st =
     (if manifestitemname \<in> set (managed_updates st) then st
      else st\<lparr>processed_installs := processed_installs st @ [manifestitemname]\<rparr>)"

definition after_processInstall_Baz :: installinfo where
  "after_processInstall_Baz =
     state_after (state_of (processInstall 1 (sample_env [item_Baz]) ''Baz'' [''production'']
                              initial_installinfo))"

text \<open>
  A suite: Office and Word share a receipt, Plugin requires Office and has a receipt of its
  own. The states in which a name is marked for uninstall and the receipt table is built.
\<close>

definition suite_env :: "nat env" where
  "suite_env = sample_env [item_Office, item_Word, item_Plugin]"

definition Word_marked :: installinfo where
  "Word_marked =
     initial_installinfo\<lparr>processed_uninstalls := [''Word''], PKGDATA := Some sample_pkgdata\<rparr>"

definition Plugin_marked :: installinfo where
  "Plugin_marked =
     initial_installinfo\<lparr>processed_uninstalls := [''Plugin''], PKGDATA := Some sample_pkgdata\<rparr>"

definition after_removal_Plugin :: installinfo where
  "after_removal_Plugin =
     state_after (state_of (processRemoval 1 suite_env ''Plugin'' [''production'']
                              initial_installinfo))"

definition after_removal_Office :: installinfo where
  "after_removal_Office =
     state_after (state_of (processRemoval 2 suite_env ''Office'' [''production'']
                              initial_installinfo))"

definition after_removal_Word_Office :: installinfo where
  "after_removal_Word_Office =
     state_after (process_requests 2 suite_env
                    [Removal ''Word'' [''production''], Removal ''Office'' [''production'']]
                    initial_installinfo)"

section \<open>Properties of nameAndVersion\<close>

lemma nameAndVersion_docstring_examples:
  "nameAndVersion ''TextWrangler-2.3b1'' = Inr (''TextWrangler'', ''2.3b1'')"
  "nameAndVersion ''AdobePhotoshopCS3--11.2.1'' = Inr (''AdobePhotoshopCS3'', ''11.2.1'')"
  "nameAndVersion ''PlainName'' = Inr (''PlainName'', '''')"
  by (simp_all add: nameAndVersion_def py_split_def Let_def)

text \<open>
  C8. The claim says the split is total and returns \<open>(input, "")\<close> for a string that ends
  in a hyphen. The code indexes the empty last chunk: on \<open>"Foo-"\<close> it raises IndexError.
\<close>

theorem nameAndVersion_trailing_hyphen_raises:
  "nameAndVersion ''Foo-'' = Inl IndexError"
  by (simp add: nameAndVersion_def py_split_def Let_def)

section \<open>Properties of checkForceInstallPackages\<close>

lemma force_install_step_result:
  "fst (snd (force_install_step now nx ho mo install res)) =
     (if deadline_passed now ho mo install then Some (item_urgency install)
      else if res \<noteq> None then res
      else if due_soon nx ho mo install then Some ''soon'' else None)"
  by (auto simp: force_install_step_def deadline_passed_def due_soon_def item_urgency_def
        truthy_str_def Let_def split: option.splits)

lemma force_install_loop_result:
  "fst (snd (force_install_loop now nx ho mo xs res)) =
     (let passed = filter (deadline_passed now ho mo) xs
      in if passed \<noteq> [] then Some (item_urgency (last passed))
         else if res \<noteq> None then res
         else if filter (due_soon nx ho mo) xs \<noteq> [] then Some ''soon'' else None)"
proof (induction xs arbitrary: res)
  case Nil
  then show ?case by simp
next
  case (Cons x xs)
  obtain x' r' w where st: "force_install_step now nx ho mo x res = (x', r', w)"
    by (cases "force_install_step now nx ho mo x res") auto
  have r': "r' = (if deadline_passed now ho mo x then Some (item_urgency x)
      else if res \<noteq> None then res
      else if due_soon nx ho mo x then Some ''soon'' else None)"
    using force_install_step_result[of now nx ho mo x res] st by simp
  obtain xs' r'' w' where lp: "force_install_loop now nx ho mo xs r' = (xs', r'', w')"
    by (cases "force_install_loop now nx ho mo xs r'") auto
  have "fst (snd (force_install_loop now nx ho mo (x # xs) res)) = r''"
    using st lp by simp
  moreover have "r'' = fst (snd (force_install_loop now nx ho mo xs r'))"
    using lp by simp
  ultimately show ?case
    using Cons.IH[of r'] r' by (auto simp: Let_def)
qed

text \<open>
  C3 (as amended). The urgency returned is that of the last record, in list order, whose
  deadline has passed: logout or restart when its RestartAction is RequireLogout or
  RequireRestart, now otherwise. When no deadline has passed it is soon if some deadline
  lies within the warning window, and none otherwise.
\<close>

theorem force_install_urgency_is_last_passed:
  "fst (checkForceInstallPackages now ho mo (Some xs)) =
     (let passed = filter (deadline_passed now ho mo) xs
      in if passed \<noteq> [] then Some (item_urgency (last passed))
         else if filter (due_soon (now + FORCE_INSTALL_WARNING_HOURS * 3600) ho mo) xs \<noteq> []
              then Some ''soon'' else None)"
proof -
  obtain ys r w where lp:
    "force_install_loop now (now + FORCE_INSTALL_WARNING_HOURS * 3600) ho mo xs None = (ys, r, w)"
    by (cases "force_install_loop now (now + FORCE_INSTALL_WARNING_HOURS * 3600) ho mo xs None") auto
  have "fst (checkForceInstallPackages now ho mo (Some xs)) = r"
    using lp by (simp add: checkForceInstallPackages_def Let_def)
  moreover have "r = fst (snd (force_install_loop now
      (now + FORCE_INSTALL_WARNING_HOURS * 3600) ho mo xs None))"
    using lp by simp
  ultimately show ?thesis
    by (simp add: force_install_loop_result Let_def)
qed

theorem force_install_urgency_is_last_passed_witness:
  "fst (checkForceInstallPackages 10 0 0 (Some [item_due_logout, item_due_now])) = Some ''now''"
  using force_install_urgency_is_last_passed [of 10 0 0 "[item_due_logout, item_due_now]"]
  by (simp add: deadline_passed_def item_due_logout_def item_due_now_def blank_iteminfo_def
      discardTimeZoneFromDate_def item_urgency_def)

text \<open>
  C3 as stated fails: the result depends on the order of the records. A record that needs
  a logout, placed after a record that yields now, lowers the result to logout, below the
  most urgent value of the list; in the other order the result is now.
\<close>

theorem force_install_urgency_order_dependent:
  "fst (checkForceInstallPackages 10 0 0 (Some [item_due_now])) = Some ''now'' \<and>
   fst (checkForceInstallPackages 10 0 0 (Some [item_due_now, item_due_logout])) = Some ''logout'' \<and>
   fst (checkForceInstallPackages 10 0 0 (Some [item_due_logout, item_due_now])) = Some ''now'' \<and>
   urgency_rank (Some ''logout'') < urgency_rank (Some ''now'')"
  by (simp add: checkForceInstallPackages_def force_install_step_def item_due_logout_def
      item_due_now_def blank_iteminfo_def discardTimeZoneFromDate_def truthy_str_def
      FORCE_INSTALL_WARNING_HOURS_def urgency_rank_def Let_def)

text \<open>
  C9 (as amended). For a single record whose deadline, with the time zone discarded, is
  earlier than now and whose RestartAction is unset, the check returns now and the record's
  unattended_install flag is true afterwards; the list is written back, with the flag set,
  exactly when the flag was not already true.
\<close>

theorem force_install_single_passed:
  assumes "ii_force_install_after_date install = Some date"
    and "discardTimeZoneFromDate ho mo date < now"
    and "ii_RestartAction install = None"
  shows "checkForceInstallPackages now ho mo (Some [install]) =
     (Some ''now'',
      if ii_unattended_install install = Some True then None
      else Some [install\<lparr>ii_unattended_install := Some True\<rparr>])"
  using assms
  by (simp add: checkForceInstallPackages_def force_install_step_def truthy_str_def
      FORCE_INSTALL_WARNING_HOURS_def Let_def)

theorem force_install_single_passed_witness:
  "checkForceInstallPackages 10 0 0 (Some [item_due_now]) =
     (Some ''now'', Some [item_due_now\<lparr>ii_unattended_install := Some True\<rparr>])"
proof -
  have d: "ii_force_install_after_date item_due_now = Some 0"
    by (simp add: item_due_now_def)
  have p: "discardTimeZoneFromDate 0 0 0 < 10"
    by (simp add: discardTimeZoneFromDate_def)
  have r: "ii_RestartAction item_due_now = None"
    by (simp add: item_due_now_def blank_iteminfo_def)
  have u: "ii_unattended_install item_due_now \<noteq> Some True"
    by (simp add: item_due_now_def blank_iteminfo_def)
  show ?thesis
    using force_install_single_passed [OF d p r] u by simp
qed

text \<open>
  C9 as stated fails for a record that is already unattended: the guard
  \<^verbatim>\<open>elif not install.get('unattended_install', False)\<close> skips it, nothing is
  mutated and nothing is written back.
\<close>

theorem force_install_already_unattended_no_writeback:
  "ii_force_install_after_date item_due_unattended = Some 0 \<and>
   discardTimeZoneFromDate 0 0 0 < 10 \<and>
   ii_RestartAction item_due_unattended = None \<and>
   checkForceInstallPackages 10 0 0 (Some [item_due_unattended]) = (Some ''now'', None)"
  by (simp add: checkForceInstallPackages_def force_install_step_def truthy_str_def
      item_due_unattended_def blank_iteminfo_def discardTimeZoneFromDate_def
      FORCE_INSTALL_WARNING_HOURS_def Let_def)

section \<open>Properties of makeCatalogDB\<close>

lemma fix_update_for_other_fields:
  "(fix_update_for item)\<lparr>pk_update_for := pk_update_for item\<rparr> = item"
  by (simp add: fix_update_for_def split: option.splits strs.splits)

lemma fix_update_for_field:
  "pk_update_for (fix_update_for item) =
     (case pk_update_for item of
        Some (Str s) \<Rightarrow> if s = [] then Some (Str s) else Some (Strs [s])
      | v \<Rightarrow> v)"
  by (simp add: fix_update_for_def truthy_strs_def split: option.splits strs.splits)

text \<open>
  C5 (as amended). After makeCatalogDB returns, the caller's list has the same length and
  every item is unchanged in every field but \<^verbatim>\<open>update_for\<close>; that field is unchanged
  too unless it was a non-empty string, which has become the one-element list holding it.
\<close>

theorem makeCatalogDB_items_after:
  "length (snd (makeCatalogDB uniq catalogitems)) = length catalogitems \<and>
   (\<forall>i < length catalogitems.
      (snd (makeCatalogDB uniq catalogitems) ! i)\<lparr>pk_update_for := pk_update_for (catalogitems ! i)\<rparr>
        = catalogitems ! i \<and>
      pk_update_for (snd (makeCatalogDB uniq catalogitems) ! i) =
        (case pk_update_for (catalogitems ! i) of
           Some (Str s) \<Rightarrow> if s = [] then Some (Str s) else Some (Strs [s])
         | v \<Rightarrow> v))"
proof -
  have "snd (makeCatalogDB uniq catalogitems) = map fix_update_for catalogitems"
    by (simp add: makeCatalogDB_def Let_def split: prod.splits)
  then show ?thesis
    by (simp add: fix_update_for_other_fields fix_update_for_field)
qed

theorem makeCatalogDB_items_after_witness:
  "pk_update_for (snd (makeCatalogDB remdups [updater_with_string]) ! 0) = Some (Strs [''Photoshop''])
   \<and> pk_name (snd (makeCatalogDB remdups [updater_with_string]) ! 0) = Some ''PhotoshopUpdate''"
proof -
  have "(snd (makeCatalogDB remdups [updater_with_string]) ! 0)\<lparr>pk_update_for := pk_update_for ([updater_with_string] ! 0)\<rparr>
        = [updater_with_string] ! 0 \<and>
      pk_update_for (snd (makeCatalogDB remdups [updater_with_string]) ! 0) =
        (case pk_update_for ([updater_with_string] ! 0) of
           Some (Str s) \<Rightarrow> if s = [] then Some (Str s) else Some (Strs [s])
         | v \<Rightarrow> v)"
    using makeCatalogDB_items_after [of remdups "[updater_with_string]"] by simp
  then have a: "(snd (makeCatalogDB remdups [updater_with_string]) ! 0)\<lparr>pk_update_for := Some (Str ''Photoshop'')\<rparr>
        = updater_with_string"
    and b: "pk_update_for (snd (makeCatalogDB remdups [updater_with_string]) ! 0) = Some (Strs [''Photoshop''])"
    by (simp_all add: updater_with_string_def)
  have "pk_name ((snd (makeCatalogDB remdups [updater_with_string]) ! 0)\<lparr>pk_update_for := Some (Str ''Photoshop'')\<rparr>)
     = pk_name updater_with_string"
    using a by simp
  then show ?thesis using b by (simp add: updater_with_string_def blank_pkginfo_def)
qed

text \<open>
  C5 as stated fails: makeCatalogDB rewrites the \<^verbatim>\<open>update_for\<close> of an input item that
  gives it as a string.
\<close>

theorem makeCatalogDB_rewrites_update_for:
  "snd (makeCatalogDB remdups [updater_with_string]) \<noteq> [updater_with_string] \<and>
   pk_update_for updater_with_string = Some (Str ''Photoshop'') \<and>
   map pk_update_for (snd (makeCatalogDB remdups [updater_with_string])) = [Some (Strs [''Photoshop''])]"
  by (simp add: makeCatalogDB_def fix_update_for_def truthy_strs_def updater_with_string_def
      blank_pkginfo_def Let_def)

section \<open>What processInstall may change\<close>

lemma and_then_returnsE:
  assumes "and_then m f = Some (Inr y)"
  obtains x where "m = Some (Inr x)" and "f x = Some (Inr y)"
  using assms by (auto simp: and_then_def split: option.splits sum.splits)

lemma lift_Some [simp]: "lift r = Some r"
  by (simp add: lift_def)

lemma returns_eq [simp]: "returns x = Some (Inr y) \<longleftrightarrow> x = y"
  by (simp add: returns_def)

lemma raises_neq [simp]: "raises e \<noteq> Some (Inr y)"
  by (simp add: raises_def)

lemma and_then_simps [simp]:
  "and_then None f = None"
  "and_then (Some (Inl e)) f = Some (Inl e)"
  "and_then (Some (Inr x)) f = f x"
  "and_then (returns x) f = f x"
  "and_then (raises e) f = raises e"
  by (simp_all add: and_then_def returns_def raises_def)

lemma install_extends_refl: "install_extends env cats st st"
  by (simp add: install_extends_def)

lemma install_extends_trans:
  assumes "install_extends env cats st st1" and "install_extends env cats st1 st2"
  shows "install_extends env cats st st2"
proof -
  from assms(1) obtain n1 r1 where
    a: "managed_updates st1 = managed_updates st" "processed_uninstalls st1 = processed_uninstalls st"
       "removals st1 = removals st" "PKGDATA st1 = PKGDATA st"
       "processed_installs st1 = processed_installs st @ n1"
       "\<forall>x \<in> set n1. x \<notin> set (managed_updates st) \<and>
            (\<exists>b v. nameAndVersion x = Inr (b, v) \<and> b \<notin> set (processed_uninstalls st)) \<and>
            (\<exists>m item. os_path_split_tail m = x \<and> getItemDetail env m cats [] = Inr (Some item))"
       "managed_installs st1 = managed_installs st @ r1"
    unfolding install_extends_def by blast
  from assms(2) obtain n2 r2 where
    b: "managed_updates st2 = managed_updates st1" "processed_uninstalls st2 = processed_uninstalls st1"
       "removals st2 = removals st1" "PKGDATA st2 = PKGDATA st1"
       "processed_installs st2 = processed_installs st1 @ n2"
       "\<forall>x \<in> set n2. x \<notin> set (managed_updates st1) \<and>
            (\<exists>b v. nameAndVersion x = Inr (b, v) \<and> b \<notin> set (processed_uninstalls st1)) \<and>
            (\<exists>m item. os_path_split_tail m = x \<and> getItemDetail env m cats [] = Inr (Some item))"
       "managed_installs st2 = managed_installs st1 @ r2"
    unfolding install_extends_def by blast
  have "processed_installs st2 = processed_installs st @ (n1 @ n2)"
    using a(5) b(5) by simp
  moreover have "\<forall>x \<in> set (n1 @ n2). x \<notin> set (managed_updates st) \<and>
            (\<exists>b v. nameAndVersion x = Inr (b, v) \<and> b \<notin> set (processed_uninstalls st)) \<and>
            (\<exists>m item. os_path_split_tail m = x \<and> getItemDetail env m cats [] = Inr (Some item))"
    using a(6) b(6) a(1) a(2) by auto
  moreover have "managed_installs st2 = managed_installs st @ (r1 @ r2)"
    using a(7) b(7) by simp
  ultimately show ?thesis
    unfolding install_extends_def using a(1-4) b(1-4) by (intro conjI exI[of _ "n1 @ n2"] exI[of _ "r1 @ r2"]) simp_all
qed

lemma install_extends_append_install:
  "install_extends env cats st (append_install r st)"
  by (simp add: install_extends_def append_install_def)

lemma process_requires_extends:
  assumes rec: "\<And>m s r s'. rec m cats s = Some (Inr (r, s')) \<Longrightarrow> install_extends env cats s s'"
  shows "process_requires rec deps cats st met = Some (Inr (r, st')) \<Longrightarrow> install_extends env cats st st'"
proof (induction deps arbitrary: st met)
  case Nil
  then show ?case by (simp add: install_extends_refl)
next
  case (Cons d deps)
  from Cons.prems obtain x where x: "rec d cats st = Some (Inr x)"
    and rest: "(case x of (success, st1) \<Rightarrow> process_requires rec deps cats st1 (met \<and> success)) = Some (Inr (r, st'))"
    by (auto elim: and_then_returnsE)
  obtain success st1 where xs: "x = (success, st1)" by (cases x)
  have "install_extends env cats st st1" using rec x xs by blast
  moreover have "install_extends env cats st1 st'" using Cons.IH rest xs by simp
  ultimately show ?case by (rule install_extends_trans)
qed

lemma process_updates_extends:
  assumes rec: "\<And>m s r s'. rec m cats s = Some (Inr (r, s')) \<Longrightarrow> install_extends env cats s s'"
  shows "process_updates rec us cats st = Some (Inr st') \<Longrightarrow> install_extends env cats st st'"
proof (induction us arbitrary: st)
  case Nil
  then show ?case by (simp add: install_extends_refl)
next
  case (Cons u us)
  from Cons.prems obtain x where x: "rec u cats st = Some (Inr x)"
    and rest: "(case x of (unused, st1) \<Rightarrow> process_updates rec us cats st1) = Some (Inr st')"
    by (auto elim: and_then_returnsE)
  obtain unused st1 where xs: "x = (unused, st1)" by (cases x)
  have "install_extends env cats st st1" using rec x xs by blast
  moreover have "install_extends env cats st1 st'" using Cons.IH rest xs by simp
  ultimately show ?case by (rule install_extends_trans)
qed

lemma install_absent_extends:
  assumes rec: "\<And>m s r s'. rec m cats s = Some (Inr (r, s')) \<Longrightarrow> install_extends env cats s s'"
    and run: "install_absent rec env base ver item cats st = Some (Inr (r, st'))"
  shows "install_extends env cats st st'"
proof (cases "download_installeritem env item (managed_installs st) False")
  case (Fetched downloaded)
  then obtain rcd us where "process_updates rec us cats (append_install rcd st) = Some (Inr st')"
    using run
    by (auto simp: install_absent_def Let_def split: if_splits elim!: and_then_returnsE)
  then have "install_extends env cats (append_install rcd st) st'"
    using rec by (rule process_updates_extends[rotated])
  then show ?thesis
    using install_extends_append_install install_extends_trans by blast
next
  case PackageVerificationError
  then show ?thesis using run
    by (auto simp: install_absent_def Let_def install_extends_append_install)
next
  case (CurlDownloadError x3)
  then show ?thesis using run
    by (auto simp: install_absent_def Let_def install_extends_append_install)
next
  case (MunkiDownloadError x4)
  then show ?thesis using run
    by (auto simp: install_absent_def Let_def install_extends_append_install)
qed

lemma install_present_extends:
  assumes rec: "\<And>m s r s'. rec m cats s = Some (Inr (r, s')) \<Longrightarrow> install_extends env cats s s'"
    and run: "install_present rec env state base ver item cats st = Some (Inr (r, st'))"
  shows "install_extends env cats st st'"
proof -
  obtain rcd us where "process_updates rec us cats (append_install rcd st) = Some (Inr st')"
    using run
    by (auto simp: install_present_def Let_def split: option.splits elim!: and_then_returnsE)
  then have "install_extends env cats (append_install rcd st) st'"
    using rec by (rule process_updates_extends[rotated])
  then show ?thesis
    using install_extends_append_install install_extends_trans by blast
qed

lemma install_extends_mark:
  assumes "nameAndVersion x = Inr (b, v)" "b \<notin> set (processed_uninstalls st)"
    "x \<notin> set (managed_updates st)"
    "os_path_split_tail m = x" "getItemDetail env m cats [] = Inr (Some item)"
  shows "install_extends env cats st (st\<lparr>processed_installs := processed_installs st @ [x]\<rparr>)"
  unfolding install_extends_def using assms
  by (intro conjI exI[of _ "[x]"] exI[of _ "[]"]) auto

lemma processInstall_body_extends:
  assumes rec: "\<And>m s r s'. rec m cats s = Some (Inr (r, s')) \<Longrightarrow> install_extends env cats s s'"
    and run: "processInstall_body rec env m cats st = Some (Inr (r, st'))"
  shows "install_extends env cats st st'"
proof -
  obtain b v where nv: "nameAndVersion (os_path_split_tail m) = Inr (b, v)"
    using run by (auto simp: processInstall_body_def Let_def elim!: and_then_returnsE)
  show ?thesis
  proof (cases "os_path_split_tail m \<in> set (processed_installs st) \<or> b \<in> set (processed_uninstalls st)")
    case True
    then show ?thesis using run nv
      by (auto simp: processInstall_body_def Let_def install_extends_refl split: if_splits)
  next
    case False
    then obtain found where gd: "getItemDetail env m cats [] = Inr found"
      using run nv by (auto simp: processInstall_body_def Let_def elim!: and_then_returnsE)
    show ?thesis
    proof (cases found)
      case None
      then show ?thesis using run nv False gd
        by (auto simp: processInstall_body_def Let_def install_extends_refl)
    next
      case (Some item)
      define st1 where "st1 = (if os_path_split_tail m \<in> set (managed_updates st) then st
          else st\<lparr>processed_installs := processed_installs st @ [os_path_split_tail m]\<rparr>)"
      have e1: "install_extends env cats st st1"
        unfolding st1_def using install_extends_mark[OF nv _ _ refl] gd Some False
        by (auto simp: install_extends_refl)
      show ?thesis
      proof (cases "isItemInInstallInfo env item (managed_installs st1) (pk_version item)")
        case True
        then have "st' = st1" using run nv False gd Some
          by (auto simp: processInstall_body_def Let_def st1_def split: if_splits)
        then show ?thesis using e1 by simp
      next
        case notin: False
        then obtain met st2 where
          pr: "process_requires rec (requires_list item) cats st1 True = Some (Inr (met, st2))"
          and fin: "(if \<not> met then returns (False, st2)
               else (let installed_state = installedState env item
                     in if installed_state = 0
                        then install_absent rec env b v item cats st2
                        else install_present rec env installed_state b v item cats st2))
               = Some (Inr (r, st'))"
          using run nv False gd Some
          by (auto simp: processInstall_body_def Let_def st1_def split: if_splits
                   elim!: and_then_returnsE)
        have e2: "install_extends env cats st1 st2"
          by (rule process_requires_extends[OF rec pr])
        have e3: "install_extends env cats st2 st'"
        proof (cases met)
          case False
          then show ?thesis using fin by (simp add: install_extends_refl)
        next
          case True
          show ?thesis
          proof (cases "installedState env item = 0")
            case True
            with \<open>met\<close> fin have "install_absent rec env b v item cats st2 = Some (Inr (r, st'))"
              by (simp add: Let_def)
            then show ?thesis
              using install_absent_extends[of rec cats env b v item st2 r st'] rec by blast
          next
            case False
            with \<open>met\<close> fin have "install_present rec env (installedState env item) b v item cats st2
                = Some (Inr (r, st'))"
              by (simp add: Let_def)
            then show ?thesis
              using install_present_extends[of rec cats env "installedState env item" b v item st2 r st']
                rec by blast
          qed
        qed
        show ?thesis
          using e1 e2 e3 install_extends_trans by blast
      qed
    qed
  qed
qed

lemma processInstall_extends:
  "processInstall depth env m cats st = Some (Inr (r, st')) \<Longrightarrow> install_extends env cats st st'"
proof (induction depth arbitrary: m st r st')
  case 0
  then show ?case by simp
next
  case (Suc depth)
  show ?case
    using Suc.prems processInstall_body_extends[of "processInstall depth env" cats env m st r st']
      Suc.IH by simp
qed

section \<open>What processRemoval may change\<close>

lemma removal_extends_refl: "removal_extends st st"
  by (simp add: removal_extends_def)

lemma removal_extends_trans:
  assumes "removal_extends st st1" and "removal_extends st1 st2"
  shows "removal_extends st st2"
proof -
  from assms(1) obtain n1 r1 where
    a: "managed_updates st1 = managed_updates st" "processed_installs st1 = processed_installs st"
       "managed_installs st1 = managed_installs st"
       "processed_uninstalls st1 = processed_uninstalls st @ n1"
       "\<forall>x \<in> set n1. \<forall>y \<in> set (processed_installs st). \<forall>b v. nameAndVersion y = Inr (b, v) \<longrightarrow> b \<noteq> x"
       "removals st1 = removals st @ r1"
    unfolding removal_extends_def by blast
  from assms(2) obtain n2 r2 where
    b: "managed_updates st2 = managed_updates st1" "processed_installs st2 = processed_installs st1"
       "managed_installs st2 = managed_installs st1"
       "processed_uninstalls st2 = processed_uninstalls st1 @ n2"
       "\<forall>x \<in> set n2. \<forall>y \<in> set (processed_installs st1). \<forall>b v. nameAndVersion y = Inr (b, v) \<longrightarrow> b \<noteq> x"
       "removals st2 = removals st1 @ r2"
    unfolding removal_extends_def by blast
  have "processed_uninstalls st2 = processed_uninstalls st @ (n1 @ n2)"
    using a(4) b(4) by simp
  moreover have "\<forall>x \<in> set (n1 @ n2). \<forall>y \<in> set (processed_installs st).
      \<forall>b v. nameAndVersion y = Inr (b, v) \<longrightarrow> b \<noteq> x"
  proof (intro ballI allI impI)
    fix x y b v
    assume x: "x \<in> set (n1 @ n2)" and y: "y \<in> set (processed_installs st)"
      and nv: "nameAndVersion y = Inr (b, v)"
    show "b \<noteq> x"
    proof (cases "x \<in> set n1")
      case True
      then show ?thesis using a(5) y nv by blast
    next
      case False
      then have "x \<in> set n2" using x by simp
      moreover have "y \<in> set (processed_installs st1)" using y a(2) by simp
      ultimately show ?thesis using b(5) nv by blast
    qed
  qed
  moreover have "removals st2 = removals st @ (r1 @ r2)"
    using a(6) b(6) by simp
  ultimately show ?thesis
    unfolding removal_extends_def using a(1-3) b(1-3)
    by (intro conjI exI[of _ "n1 @ n2"] exI[of _ "r1 @ r2"]) simp_all
qed

lemma removal_extends_PKGDATA: "removal_extends st (st\<lparr>PKGDATA := d\<rparr>)"
  by (simp add: removal_extends_def)

lemma removal_extends_append_removal: "removal_extends st (append_removal r st)"
  by (simp add: removal_extends_def append_removal_def)

lemma evidenceThisIsInstalled_extends:
  assumes "evidenceThisIsInstalled env item st = Inr (r, st')"
  shows "removal_extends st st'"
proof (cases "found_all_installs env item")
  case True
  then have "st' = st" using assms by (simp add: evidenceThisIsInstalled_def)
  then show ?thesis by (simp add: removal_extends_refl)
next
  case False
  show ?thesis
  proof (cases "pk_receipts item")
    case None
    then have "st' = st" using assms False by (simp add: evidenceThisIsInstalled_def)
    then show ?thesis by (simp add: removal_extends_refl)
  next
    case (Some rs)
    show ?thesis
    proof (cases rs)
      case Nil
      then have "st' = st" using assms False Some by (simp add: evidenceThisIsInstalled_def)
      then show ?thesis by (simp add: removal_extends_refl)
    next
      case (Cons a list)
      then have "\<exists>d. st' = st\<lparr>PKGDATA := d\<rparr>"
        using assms False Some
        by (cases "pk_name item") (auto simp: evidenceThisIsInstalled_def Let_def)
      then show ?thesis using removal_extends_PKGDATA by blast
    qed
  qed
qed

lemma find_install_evidence_extends:
  "find_install_evidence env infoitems st = Inr (r, st') \<Longrightarrow> removal_extends st st'"
proof (induction infoitems arbitrary: st)
  case Nil
  then show ?case by (simp add: removal_extends_refl)
next
  case (Cons item infoitems)
  from Cons.prems obtain ok st1 where ev: "evidenceThisIsInstalled env item st = Inr (ok, st1)"
    by (auto split: if_splits sum.splits)
  have e1: "removal_extends st st1" using ev by (rule evidenceThisIsInstalled_extends)
  show ?case
  proof (cases ok)
    case True
    then have "st' = st1" using Cons.prems ev by (auto split: if_splits)
    then show ?thesis using e1 by simp
  next
    case False
    then have "find_install_evidence env infoitems st1 = Inr (r, st')"
      using Cons.prems ev by (auto split: if_splits)
    then have "removal_extends st1 st'" by (rule Cons.IH)
    then show ?thesis using e1 removal_extends_trans by blast
  qed
qed

lemma find_install_evidence_has_keys:
  "find_install_evidence env infoitems st = Inr (Some item, st')
     \<Longrightarrow> pk_name item \<noteq> None \<and> pk_version item \<noteq> None"
  by (induction infoitems arbitrary: st) (auto split: if_splits sum.splits bool.splits)


lemma process_update_removals_extends:
  assumes rec: "\<And>m c s r s'. rec m c s = Some (Inr (r, s')) \<Longrightarrow> removal_extends s s'"
  shows "process_update_removals rec us cats st = Some (Inr st') \<Longrightarrow> removal_extends st st'"
proof (induction us arbitrary: st)
  case Nil
  then show ?case by (simp add: removal_extends_refl)
next
  case (Cons u us)
  from Cons.prems obtain x where x: "rec u cats st = Some (Inr x)"
    and rest: "(case x of (unused, st1) \<Rightarrow> process_update_removals rec us cats st1) = Some (Inr st')"
    by (auto elim: and_then_returnsE)
  obtain unused st1 where xs: "x = (unused, st1)" by (cases x)
  have "removal_extends st st1" using rec x xs by blast
  moreover have "removal_extends st1 st'" using Cons.IH rest xs by simp
  ultimately show ?case by (rule removal_extends_trans)
qed

lemma remove_dependents_of_catalog_extends:
  assumes rec: "\<And>m c s r s'. rec m c s = Some (Inr (r, s')) \<Longrightarrow> removal_extends s s'"
  shows "remove_dependents_of_catalog rec env targets catalog_pl cats names st = Some (Inr (ok, names', st'))
    \<Longrightarrow> removal_extends st st'"
proof (induction catalog_pl arbitrary: names st)
  case Nil
  then show ?case by (simp add: removal_extends_refl)
next
  case (Cons item_pl catalog_pl)
  let ?dep = "(case pk_requires item_pl of None \<Rightarrow> False
               | Some req \<Rightarrow> list_ex (\<lambda>t. strs_contains t req) targets)"
  show ?case
  proof (cases "pk_name item_pl \<in> set names")
    case True
    then show ?thesis using Cons.prems Cons.IH by simp
  next
    case notdone: False
    show ?thesis
    proof (cases ?dep)
      case False
      then show ?thesis using Cons.prems Cons.IH notdone by simp
    next
      case True
      then obtain installed st1 where ev: "evidenceThisIsInstalled env item_pl st = Inr (installed, st1)"
        and rest: "(if installed
                then (case pk_name item_pl of
                        None \<Rightarrow> raises (AttributeError ''NoneType object has no attribute rfind'')
                      | Some name \<Rightarrow>
                          and_then (rec name cats st1)
                            (\<lambda>(success, st2).
                               if \<not> success then returns (False, names, st2)
                               else remove_dependents_of_catalog rec env targets
                                      catalog_pl cats (names @ [pk_name item_pl]) st2))
                else remove_dependents_of_catalog rec env targets catalog_pl
                       cats (names @ [pk_name item_pl]) st1) = Some (Inr (ok, names', st'))"
        using Cons.prems notdone by (auto elim!: and_then_returnsE)
      have e1: "removal_extends st st1" using ev by (rule evidenceThisIsInstalled_extends)
      show ?thesis
      proof (cases installed)
        case False
        then have "removal_extends st1 st'" using rest Cons.IH by simp
        then show ?thesis using e1 removal_extends_trans by blast
      next
        case True
        then obtain name success st2 where nm: "pk_name item_pl = Some name"
          and rc: "rec name cats st1 = Some (Inr (success, st2))"
          and rest2: "(if \<not> success then returns (False, names, st2)
                 else remove_dependents_of_catalog rec env targets
                        catalog_pl cats (names @ [pk_name item_pl]) st2) = Some (Inr (ok, names', st'))"
          using rest by (auto split: option.splits elim!: and_then_returnsE)
        have e2: "removal_extends st1 st2" using rec rc by blast
        have e3: "removal_extends st2 st'"
          using rest2 Cons.IH by (auto simp: removal_extends_refl split: if_splits)
        show ?thesis using e1 e2 e3 removal_extends_trans by blast
      qed
    qed
  qed
qed

lemma remove_dependents_extends:
  assumes rec: "\<And>m c s r s'. rec m c s = Some (Inr (r, s')) \<Longrightarrow> removal_extends s s'"
  shows "remove_dependents rec env targets files cats names st ok = Some (Inr (r, st'))
    \<Longrightarrow> removal_extends st st'"
proof (induction files arbitrary: names st ok)
  case Nil
  then show ?case by (simp add: removal_extends_refl)
next
  case (Cons f files)
  from Cons.prems obtain catalog_pl fin names1 st1 where
    "readPlist_catalog env f = Inr catalog_pl"
    and one: "remove_dependents_of_catalog rec env targets catalog_pl cats names st
        = Some (Inr (fin, names1, st1))"
    and rest: "remove_dependents rec env targets files cats names1 st1 (ok \<and> fin) = Some (Inr (r, st'))"
    by (auto elim!: and_then_returnsE)
  have "removal_extends st st1"
    by (rule remove_dependents_of_catalog_extends[OF rec one])
  moreover have "removal_extends st1 st'" using rest by (rule Cons.IH)
  ultimately show ?case by (rule removal_extends_trans)
qed

lemma drop_references_extends:
  "drop_references name pkgs st = Some (Inr (really, st1)) \<Longrightarrow> removal_extends st st1"
  by (auto simp: drop_references_def removal_extends_refl removal_extends_PKGDATA
      split: if_splits option.splits elim!: and_then_returnsE)

lemma and_then_returnsD:
  "and_then m f = Some (Inr y) \<Longrightarrow> \<exists>x. m = Some (Inr x) \<and> f x = Some (Inr y)"
  by (auto simp: and_then_def split: option.splits sum.splits)

lemma finish_removal_cases:
  assumes "finish_removal rec env item name version umethod iteminfo1 cats st1 = Some (Inr (r, st'))"
    and "\<lbrakk>r = False; st' = st1\<rbrakk> \<Longrightarrow> P"
    and "\<And>us st2 rcd. \<lbrakk>r = True; process_update_removals rec us cats st1 = Some (Inr st2);
                        st' = append_removal rcd st2\<rbrakk> \<Longrightarrow> P"
  shows P
proof -
  from assms(1)[unfolded finish_removal_def] obtain keys where
    rest: "(case keys of
          None \<Rightarrow> returns (False, st1)
        | Some iteminfo2 \<Rightarrow>
            and_then (lift (lookForUpdates env name cats))
              (\<lambda>l1. and_then (lift (lookForUpdates env (name @ ''-'' @ version) cats))
                (\<lambda>l2. and_then (lift (lookForUpdates env (name @ ''--'' @ version) cats))
                  (\<lambda>l3. and_then (process_update_removals rec (l1 @ l2 @ l3) cats st1)
                    (\<lambda>st2. returns (True, append_removal
                         (iteminfo2\<lparr>rm_installed_version := Some version,
                                    rm_RestartAction := pk_RestartAction item\<rparr>)
                         st2)))))) = Some (Inr (r, st'))"
    by (blast dest: and_then_returnsD)
  show P
  proof (cases keys)
    case None
    then show ?thesis using rest assms(2) by simp
  next
    case (Some iteminfo2)
    with rest have "and_then (lift (lookForUpdates env name cats))
              (\<lambda>l1. and_then (lift (lookForUpdates env (name @ ''-'' @ version) cats))
                (\<lambda>l2. and_then (lift (lookForUpdates env (name @ ''--'' @ version) cats))
                  (\<lambda>l3. and_then (process_update_removals rec (l1 @ l2 @ l3) cats st1)
                    (\<lambda>st2. returns (True, append_removal
                         (iteminfo2\<lparr>rm_installed_version := Some version,
                                    rm_RestartAction := pk_RestartAction item\<rparr>)
                         st2))))) = Some (Inr (r, st'))"
      by (simp only: option.case)
    then have "\<exists>us st2 rcd. process_update_removals rec us cats st1 = Some (Inr st2) \<and>
        returns (True, append_removal rcd st2) = Some (Inr (r, st'))"
      by (blast dest!: and_then_returnsD)
    then show ?thesis using assms(3) by auto
  qed
qed

lemma finish_removal_extends:
  assumes rec: "\<And>m c s r s'. rec m c s = Some (Inr (r, s')) \<Longrightarrow> removal_extends s s'"
    and run: "finish_removal rec env item name version umethod iteminfo1 cats st1 = Some (Inr (r, st'))"
  shows "removal_extends st1 st'"
  using run
proof (rule finish_removal_cases)
  assume "r = False" "st' = st1"
  then show ?thesis by (simp add: removal_extends_refl)
next
  fix us st2 rcd
  assume "process_update_removals rec us cats st1 = Some (Inr st2)"
    and st': "st' = append_removal rcd st2"
  then have "removal_extends st1 st2"
    using process_update_removals_extends[of rec us cats st1 st2] rec by blast
  moreover have "removal_extends st2 st'"
    using st' removal_extends_append_removal by simp
  ultimately show ?thesis using removal_extends_trans by blast
qed

lemma record_removal_extends:
  assumes rec: "\<And>m c s r s'. rec m c s = Some (Inr (r, s')) \<Longrightarrow> removal_extends s s'"
    and run: "record_removal rec env item name version umethod pkgs cats st = Some (Inr (r, st'))"
  shows "removal_extends st st'"
proof -
  from run obtain really st1 where
    first: "drop_references name pkgs st = Some (Inr (really, st1))"
    and rest: "(if pkgs \<noteq> [] \<and> really = [] then returns (False, st1)
          else finish_removal rec env item name version umethod
                 (if pkgs \<noteq> [] then (removal_iteminfo item)\<lparr>rm_packages := Some really\<rparr>
                  else removal_iteminfo item) cats st1) = Some (Inr (r, st'))"
    unfolding record_removal_def by (auto elim!: and_then_returnsE)
  have e1: "removal_extends st st1"
    using first by (rule drop_references_extends)
  have "removal_extends st1 st'"
  proof (cases "pkgs \<noteq> [] \<and> really = []")
    case True
    then show ?thesis using rest by (simp add: removal_extends_refl)
  next
    case False
    then obtain iteminfo1 where
      "finish_removal rec env item name version umethod iteminfo1 cats st1 = Some (Inr (r, st'))"
      using rest by (auto split: if_splits)
    then show ?thesis
      using finish_removal_extends[of rec env item name version umethod iteminfo1 cats st1 r st'] rec
      by blast
  qed
  then show ?thesis using e1 removal_extends_trans by blast
qed

lemma names_without_version_set:
  "names_without_version xs = Inr names \<Longrightarrow>
     set names = {b. \<exists>y \<in> set xs. \<exists>v. nameAndVersion y = Inr (b, v)}"
proof (induction xs arbitrary: names)
  case Nil
  then show ?case by simp
next
  case (Cons x xs)
  from Cons.prems obtain b v ns where nv: "nameAndVersion x = Inr (b, v)"
    and ns: "names_without_version xs = Inr ns" and names: "names = b # ns"
    by (auto split: sum.splits)
  have "set ns = {b. \<exists>y \<in> set xs. \<exists>v. nameAndVersion y = Inr (b, v)}"
    using Cons.IH ns by simp
  then show ?case using nv names by auto
qed

lemma removal_extends_mark:
  assumes "names_without_version (processed_installs st) = Inr names" "x \<notin> set names"
  shows "removal_extends st (st\<lparr>processed_uninstalls := processed_uninstalls st @ [x]\<rparr>)"
proof -
  have "\<forall>y \<in> set (processed_installs st). \<forall>b v. nameAndVersion y = Inr (b, v) \<longrightarrow> b \<noteq> x"
    using assms names_without_version_set[OF assms(1)] by blast
  then show ?thesis
    unfolding removal_extends_def
    by (intro conjI exI[of _ "[x]"] exI[of _ "[]"]) simp_all
qed

lemma remove_installed_item_extends:
  assumes rec: "\<And>m c s r s'. rec m c s = Some (Inr (r, s')) \<Longrightarrow> removal_extends s s'"
    and run: "remove_installed_item rec env item cats st2 = Some (Inr (r, st'))"
  shows "removal_extends st2 st'"
proof -
  from run[unfolded remove_installed_item_def] obtain have_item pkgs where
    rest: "(if \<not> have_item then returns (False, st2)
          else (case (pk_name item, pk_version item, pk_uninstall_method item) of
                  (Some name, Some version, Some uninstallmethod) \<Rightarrow>
                    and_then
                      (remove_dependents rec env
                         [name, name @ ''-'' @ version, name @ ''--'' @ version]
                         cats cats [] st2 True)
                      (\<lambda>(dependentitemsremoved, st3).
                         if \<not> dependentitemsremoved then returns (False, st3)
                         else record_removal rec env item name version
                                uninstallmethod pkgs cats st3)
                | (None, _, _) \<Rightarrow> raises (KeyError ''name'')
                | (_, None, _) \<Rightarrow> raises (KeyError ''version'')
                | _ \<Rightarrow> raises (KeyError ''uninstall_method''))) = Some (Inr (r, st'))"
    by (auto dest!: and_then_returnsD simp del: lift_Some append.simps)
  show ?thesis
  proof (cases have_item)
    case False
    then show ?thesis using rest by (simp add: removal_extends_refl)
  next
    case True
    then obtain name version umethod where
      "and_then (remove_dependents rec env
                         [name, name @ ''-'' @ version, name @ ''--'' @ version]
                         cats cats [] st2 True)
                      (\<lambda>(dependentitemsremoved, st3).
                         if \<not> dependentitemsremoved then returns (False, st3)
                         else record_removal rec env item name version
                                umethod pkgs cats st3) = Some (Inr (r, st'))"
      using rest by (auto split: option.splits simp del: append.simps)
    then obtain ok st3 targets where
      rd: "remove_dependents rec env targets cats cats [] st2 True = Some (Inr (ok, st3))"
      and fin: "(if \<not> ok then returns (False, st3)
                         else record_removal rec env item name version
                                umethod pkgs cats st3) = Some (Inr (r, st'))"
      by (auto dest!: and_then_returnsD simp del: append.simps)
    have e1: "removal_extends st2 st3"
      using remove_dependents_extends[of rec env targets cats cats "[]" st2 True ok st3] rec rd
      by blast
    have e2: "removal_extends st3 st'"
    proof (cases ok)
      case False
      then show ?thesis using fin by (simp add: removal_extends_refl)
    next
      case True
      then show ?thesis
        using fin record_removal_extends[of rec env item name version umethod pkgs cats st3 r st'] rec
        by auto
    qed
    show ?thesis using e1 e2 removal_extends_trans by blast
  qed
qed

lemma remove_marked_extends:
  assumes rec: "\<And>m c s r s'. rec m c s = Some (Inr (r, s')) \<Longrightarrow> removal_extends s s'"
    and run: "remove_marked rec env name ver cats st1 = Some (Inr (r, st'))"
  shows "removal_extends st1 st'"
proof -
  from run[unfolded remove_marked_def] obtain infoitems where
    rest: "(if infoitems = [] then returns (False, st1)
          else and_then (lift (find_install_evidence env infoitems st1))
            (\<lambda>(found, st2). case found of
               None \<Rightarrow> returns (True, append_removal (blank_removalinfo name False) st2)
             | Some item \<Rightarrow> remove_installed_item rec env item cats st2)) = Some (Inr (r, st'))"
    by (auto dest!: and_then_returnsD simp del: lift_Some)
  show ?thesis
  proof (cases "infoitems = []")
    case True
    then show ?thesis using rest by (simp add: removal_extends_refl)
  next
    case False
    then obtain found st2 where
      fe: "find_install_evidence env infoitems st1 = Inr (found, st2)"
      and fin: "(case found of
               None \<Rightarrow> returns (True, append_removal (blank_removalinfo name False) st2)
             | Some item \<Rightarrow> remove_installed_item rec env item cats st2) = Some (Inr (r, st'))"
      using rest by (auto dest!: and_then_returnsD)
    have e1: "removal_extends st1 st2" using fe by (rule find_install_evidence_extends)
    have e2: "removal_extends st2 st'"
    proof (cases found)
      case None
      then show ?thesis using fin by (auto simp: removal_extends_append_removal)
    next
      case (Some item)
      then show ?thesis
        using fin remove_installed_item_extends[of rec env item cats st2 r st'] rec
        by auto
    qed
    show ?thesis using e1 e2 removal_extends_trans by blast
  qed
qed

lemma processRemoval_body_cases:
  assumes "processRemoval_body rec env m cats st = Some (Inr (r, st'))"
  obtains (refused) "r = False" "st' = st" "removal_refused st m"
  | (already) b v where "r = True" "st' = st" "\<not> removal_refused st m"
      "nameAndVersion (os_path_split_tail m) = Inr (b, v)" "b \<in> set (processed_uninstalls st)"
  | (marked) b v names where "\<not> removal_refused st m"
      "nameAndVersion (os_path_split_tail m) = Inr (b, v)"
      "names_without_version (processed_installs st) = Inr names" "b \<notin> set names"
      "b \<notin> set (processed_uninstalls st)"
      "remove_marked rec env b v cats (st\<lparr>processed_uninstalls := processed_uninstalls st @ [b]\<rparr>)
         = Some (Inr (r, st'))"
proof -
  from assms obtain b v names where
    nv: "nameAndVersion (os_path_split_tail m) = Inr (b, v)"
    and ns: "names_without_version (processed_installs st) = Inr names"
    and rest: "(if b \<in> set names then returns (False, st)
                   else if b \<in> set (processed_uninstalls st) then returns (True, st)
                   else remove_marked rec env b v cats
                          (st\<lparr>processed_uninstalls := processed_uninstalls st @ [b]\<rparr>))
        = Some (Inr (r, st'))"
    unfolding processRemoval_body_def Let_def
    by (auto dest!: and_then_returnsD)
  have rr: "removal_refused st m \<longleftrightarrow> b \<in> set names"
    using nv ns by (simp add: removal_refused_def)
  show ?thesis
  proof (cases "b \<in> set names")
    case True
    then show ?thesis using rest rr refused by simp
  next
    case notref: False
    show ?thesis
    proof (cases "b \<in> set (processed_uninstalls st)")
      case True
      then show ?thesis using rest rr notref nv already by simp
    next
      case False
      then show ?thesis using rest rr notref nv ns marked by simp
    qed
  qed
qed

lemma processRemoval_body_extends:
  assumes rec: "\<And>m c s r s'. rec m c s = Some (Inr (r, s')) \<Longrightarrow> removal_extends s s'"
    and run: "processRemoval_body rec env m cats st = Some (Inr (r, st'))"
  shows "removal_extends st st'"
  using run
proof (cases rule: processRemoval_body_cases)
  case refused
  then show ?thesis by (simp add: removal_extends_refl)
next
  case (already b v)
  then show ?thesis by (simp add: removal_extends_refl)
next
  case (marked b v names)
  have "removal_extends st (st\<lparr>processed_uninstalls := processed_uninstalls st @ [b]\<rparr>)"
    using marked(3,4) by (rule removal_extends_mark)
  moreover have "removal_extends (st\<lparr>processed_uninstalls := processed_uninstalls st @ [b]\<rparr>) st'"
    using remove_marked_extends[of rec env b v cats _ r st'] rec marked(6) by blast
  ultimately show ?thesis by (rule removal_extends_trans)
qed

lemma processRemoval_extends:
  "processRemoval depth env m cats st = Some (Inr (r, st')) \<Longrightarrow> removal_extends st st'"
proof (induction depth arbitrary: m cats st r st')
  case 0
  then show ?case by simp
next
  case (Suc depth)
  show ?case
    using Suc.prems processRemoval_body_extends[of "processRemoval depth env" env m cats st r st']
      Suc.IH by simp
qed

section \<open>The invariant of the two name lists\<close>

lemma no_conflict_iff:
  "no_conflict st \<longleftrightarrow>
     (\<forall>x \<in> set (processed_installs st).
        \<exists>b v. nameAndVersion x = Inr (b, v) \<and> b \<notin> set (processed_uninstalls st))"
proof -
  have "(case nameAndVersion x of Inl e \<Rightarrow> False
         | Inr (b, v) \<Rightarrow> b \<notin> set (processed_uninstalls st))
        \<longleftrightarrow> (\<exists>b v. nameAndVersion x = Inr (b, v) \<and> b \<notin> set (processed_uninstalls st))" for x
    by (cases "nameAndVersion x") auto
  then show ?thesis
    by (simp add: no_conflict_def list_all_iff)
qed

lemma no_conflict_install_extends:
  assumes "no_conflict st" and "install_extends env cats st st'"
  shows "no_conflict st'"
proof -
  from assms(2) obtain names where
    pu: "processed_uninstalls st' = processed_uninstalls st"
    and pi: "processed_installs st' = processed_installs st @ names"
    and new: "\<forall>x \<in> set names. \<exists>b v. nameAndVersion x = Inr (b, v) \<and> b \<notin> set (processed_uninstalls st)"
    unfolding install_extends_def by blast
  show ?thesis
    unfolding no_conflict_iff
  proof
    fix x assume "x \<in> set (processed_installs st')"
    then have "x \<in> set (processed_installs st) \<or> x \<in> set names" using pi by simp
    then show "\<exists>b v. nameAndVersion x = Inr (b, v) \<and> b \<notin> set (processed_uninstalls st')"
      using assms(1) new pu unfolding no_conflict_iff by metis
  qed
qed

lemma no_conflict_removal_extends:
  assumes "no_conflict st" and "removal_extends st st'"
  shows "no_conflict st'"
proof -
  from assms(2) obtain names where
    pi: "processed_installs st' = processed_installs st"
    and pu: "processed_uninstalls st' = processed_uninstalls st @ names"
    and new: "\<forall>x \<in> set names. \<forall>y \<in> set (processed_installs st).
                \<forall>b v. nameAndVersion y = Inr (b, v) \<longrightarrow> b \<noteq> x"
    unfolding removal_extends_def by blast
  show ?thesis
    unfolding no_conflict_iff
  proof
    fix x assume x: "x \<in> set (processed_installs st')"
    then have xin: "x \<in> set (processed_installs st)" using pi by simp
    then obtain b v where nv: "nameAndVersion x = Inr (b, v)"
      and b: "b \<notin> set (processed_uninstalls st)"
      using assms(1) unfolding no_conflict_iff by blast
    have "b \<notin> set names" using new xin nv by blast
    then show "\<exists>b v. nameAndVersion x = Inr (b, v) \<and> b \<notin> set (processed_uninstalls st')"
      using nv b pu by simp
  qed
qed

lemma no_conflict_managed_updates:
  "no_conflict (st\<lparr>managed_updates := u\<rparr>) = no_conflict st"
  by (simp add: no_conflict_iff)

lemma processManagedUpdate_cases:
  assumes "processManagedUpdate depth env m cats st = Some (Inr st')"
  obtains (skipped) "st' = st"
  | (enqueued) item r where
      "os_path_split_tail m \<notin> set (managed_updates st)"
      "os_path_split_tail m \<notin> set (processed_installs st)"
      "os_path_split_tail m \<notin> set (processed_uninstalls st)"
      "getItemDetail env m cats [] = Inr (Some item)"
      "someVersionInstalled env item"
      "processInstall depth env m cats
         (st\<lparr>managed_updates := managed_updates st @ [os_path_split_tail m]\<rparr>) = Some (Inr (r, st'))"
proof (cases "os_path_split_tail m \<in> set (managed_updates st) \<or>
              os_path_split_tail m \<in> set (processed_installs st) \<or>
              os_path_split_tail m \<in> set (processed_uninstalls st)")
  case True
  then have "st' = st" using assms
    by (auto simp: processManagedUpdate_def Let_def split: if_splits)
  then show ?thesis by (rule skipped)
next
  case False
  then obtain found where gd: "getItemDetail env m cats [] = Inr found"
    and rest: "(case found of
              None \<Rightarrow> returns st
            | Some item_pl \<Rightarrow>
                if someVersionInstalled env item_pl
                then and_then
                       (processInstall depth env m cats
                          (st\<lparr>managed_updates := managed_updates st @ [os_path_split_tail m]\<rparr>))
                       (\<lambda>(unused_result, st'). returns st')
                else returns st) = Some (Inr st')"
    using assms by (auto simp: processManagedUpdate_def Let_def dest!: and_then_returnsD)
  show ?thesis
  proof (cases found)
    case None
    then show ?thesis using rest skipped by simp
  next
    case (Some item)
    show ?thesis
    proof (cases "someVersionInstalled env item")
      case False
      then show ?thesis using rest Some skipped by simp
    next
      case True
      then obtain r where "processInstall depth env m cats
         (st\<lparr>managed_updates := managed_updates st @ [os_path_split_tail m]\<rparr>) = Some (Inr (r, st'))"
        using rest Some by (auto dest!: and_then_returnsD)
      then show ?thesis using enqueued False gd Some True by blast
    qed
  qed
qed

lemma process_request_no_conflict:
  assumes "no_conflict st" and "process_request depth env request st = Some (Inr st')"
  shows "no_conflict st'"
proof (cases request)
  case (Install item cats)
  then obtain r where "processInstall depth env item cats st = Some (Inr (r, st'))"
    using assms(2) by (auto dest!: and_then_returnsD)
  then show ?thesis
    using processInstall_extends no_conflict_install_extends assms(1) by blast
next
  case (Removal item cats)
  then obtain r where "processRemoval depth env item cats st = Some (Inr (r, st'))"
    using assms(2) by (auto dest!: and_then_returnsD)
  then show ?thesis
    using processRemoval_extends no_conflict_removal_extends assms(1) by blast
next
  case (ManagedUpdate item cats)
  then have "processManagedUpdate depth env item cats st = Some (Inr st')"
    using assms(2) by simp
  then show ?thesis
  proof (cases rule: processManagedUpdate_cases)
    case skipped
    then show ?thesis using assms(1) by simp
  next
    case (enqueued pl r)
    have "no_conflict (st\<lparr>managed_updates := managed_updates st @ [os_path_split_tail item]\<rparr>)"
      using assms(1) by (simp add: no_conflict_managed_updates)
    then show ?thesis
      using enqueued(6) processInstall_extends no_conflict_install_extends by blast
  qed
qed

lemma process_requests_no_conflict:
  assumes "no_conflict st" and "process_requests depth env requests st = Some (Inr st')"
  shows "no_conflict st'"
  using assms
proof (induction requests arbitrary: st)
  case Nil
  then show ?case by simp
next
  case (Cons request requests)
  from Cons.prems(2) obtain st1 where
    one: "process_request depth env request st = Some (Inr st1)"
    and rest: "process_requests depth env requests st1 = Some (Inr st')"
    by (auto dest!: and_then_returnsD)
  have "no_conflict st1" using Cons.prems(1) one by (rule process_request_no_conflict)
  then show ?case using rest by (rule Cons.IH)
qed

lemma no_conflict_names_without_version:
  "no_conflict st \<Longrightarrow> \<exists>names. names_without_version (processed_installs st) = Inr names"
proof -
  have "(\<forall>x \<in> set xs. \<exists>b v. nameAndVersion x = Inr (b, v))
        \<Longrightarrow> \<exists>names. names_without_version xs = Inr names" for xs
  proof (induction xs)
    case Nil
    then show ?case by simp
  next
    case (Cons x xs)
    then obtain b v names where "nameAndVersion x = Inr (b, v)" "names_without_version xs = Inr names"
      by auto
    then show ?case by simp
  qed
  then show "no_conflict st \<Longrightarrow> \<exists>names. names_without_version (processed_installs st) = Inr names"
    unfolding no_conflict_iff by blast
qed

lemma processRemoval_refused:
  assumes "removal_refused st m"
  shows "processRemoval (Suc depth) env m cats st = Some (Inr (False, st))"
proof -
  from assms obtain b v names where "nameAndVersion (os_path_split_tail m) = Inr (b, v)"
    "names_without_version (processed_installs st) = Inr names" "b \<in> set names"
    by (auto simp: removal_refused_def split: sum.splits)
  then show ?thesis
    by (simp add: processRemoval_body_def Let_def)
qed

section \<open>Installs and uninstalls are kept apart\<close>

text \<open>
  C2 (as amended). After any sequence of install, removal and managed-update requests that
  runs to completion from the initial state, every entry of \<^verbatim>\<open>processed_installs\<close> has a
  base name (its name with the version stripped) and that base name is not in
  \<^verbatim>\<open>processed_uninstalls\<close>; so a name that embeds no version is in at most one of the two
  lists. In such a state, processRemoval of a name whose base name is the base name of an
  entry of \<^verbatim>\<open>processed_installs\<close> returns False and leaves the state, and so the removals
  list, unchanged.
\<close>

theorem run_keeps_installs_and_uninstalls_apart:
  assumes "process_requests depth env requests initial_installinfo = Some (Inr st)"
  shows "(\<forall>x \<in> set (processed_installs st).
            \<exists>b v. nameAndVersion x = Inr (b, v) \<and> b \<notin> set (processed_uninstalls st)) \<and>
         (\<forall>x. nameAndVersion x = Inr (x, []) \<longrightarrow>
            \<not> (x \<in> set (processed_installs st) \<and> x \<in> set (processed_uninstalls st))) \<and>
         (\<forall>m b v y v' cats d.
            nameAndVersion (os_path_split_tail m) = Inr (b, v) \<longrightarrow>
            y \<in> set (processed_installs st) \<longrightarrow> nameAndVersion y = Inr (b, v') \<longrightarrow>
            processRemoval (Suc d) env m cats st = Some (Inr (False, st)))"
proof -
  have "no_conflict initial_installinfo"
    by (simp add: no_conflict_def initial_installinfo_def)
  then have nc: "no_conflict st"
    using assms by (rule process_requests_no_conflict)
  then have one: "\<forall>x \<in> set (processed_installs st).
            \<exists>b v. nameAndVersion x = Inr (b, v) \<and> b \<notin> set (processed_uninstalls st)"
    by (simp add: no_conflict_iff)
  have two: "\<forall>x. nameAndVersion x = Inr (x, []) \<longrightarrow>
            \<not> (x \<in> set (processed_installs st) \<and> x \<in> set (processed_uninstalls st))"
    using one by fastforce
  have three: "processRemoval (Suc d) env m cats st = Some (Inr (False, st))"
    if nv: "nameAndVersion (os_path_split_tail m) = Inr (b, v)"
      and y: "y \<in> set (processed_installs st)" "nameAndVersion y = Inr (b, v')"
    for m b v y v' cats d
  proof -
    obtain names where ns: "names_without_version (processed_installs st) = Inr names"
      using nc no_conflict_names_without_version by blast
    have "b \<in> set names"
      using names_without_version_set[OF ns] y by blast
    then have "removal_refused st m"
      using nv ns by (simp add: removal_refused_def)
    then show ?thesis by (rule processRemoval_refused)
  qed
  show ?thesis using one two three by blast
qed

lemma run_install_Baz:
  "process_requests 2 (sample_env [item_Baz]) [Install ''Baz'' [''production'']] initial_installinfo
     = Some (Inr after_install_Baz)"
  unfolding after_install_Baz_def by code_simp

theorem run_keeps_installs_and_uninstalls_apart_witness:
  "processRemoval (Suc 0) (sample_env [item_Baz]) ''Baz-2.0'' [''production''] after_install_Baz
     = Some (Inr (False, after_install_Baz))"
proof -
  have nv: "nameAndVersion (os_path_split_tail ''Baz-2.0'') = Inr (''Baz'', ''2.0'')"
    by code_simp
  have y: "''Baz'' \<in> set (processed_installs after_install_Baz)"
    unfolding after_install_Baz_def by code_simp
  have nvy: "nameAndVersion ''Baz'' = Inr (''Baz'', [])"
    by code_simp
  show ?thesis
    using run_keeps_installs_and_uninstalls_apart [OF run_install_Baz] nv y nvy by blast
qed

text \<open>
  C2 as stated fails for a name that embeds two versions. Removing \<open>a-1--2\<close> marks its
  base name \<open>a-1\<close> as processed for uninstall; installing \<open>a-1\<close> afterwards is tested
  against the base name \<open>a\<close> only, so \<open>a-1\<close> ends in both lists.
\<close>

theorem name_in_both_lists:
  "names_after (process_requests 2 (sample_env [item_a])
     [Removal ''a-1--2'' [''production''], Install ''a-1'' [''production'']] initial_installinfo)
   = Some ([''a-1''], [''a-1''])"
  by code_simp

section \<open>Managed updates and the conflict check\<close>

lemma install_extends_fields:
  assumes "install_extends env cats st st'"
  shows "managed_updates st' = managed_updates st"
    and "processed_uninstalls st' = processed_uninstalls st"
    and "set (processed_installs st) \<subseteq> set (processed_installs st')"
    and "set (managed_installs st) \<subseteq> set (managed_installs st')"
    and "x \<in> set (processed_installs st') \<Longrightarrow> x \<notin> set (processed_installs st)
           \<Longrightarrow> x \<notin> set (managed_updates st)"
    and "x \<in> set (processed_installs st') \<Longrightarrow> x \<notin> set (processed_installs st)
           \<Longrightarrow> \<exists>m item. os_path_split_tail m = x \<and> getItemDetail env m cats [] = Inr (Some item)"
proof -
  from assms obtain names records where
    a: "managed_updates st' = managed_updates st" "processed_uninstalls st' = processed_uninstalls st"
    and pi: "processed_installs st' = processed_installs st @ names"
    and new: "\<forall>x \<in> set names. x \<notin> set (managed_updates st) \<and>
            (\<exists>m item. os_path_split_tail m = x \<and> getItemDetail env m cats [] = Inr (Some item))"
    and mi: "managed_installs st' = managed_installs st @ records"
    unfolding install_extends_def by blast
  show "managed_updates st' = managed_updates st" by (rule a(1))
  show "processed_uninstalls st' = processed_uninstalls st" by (rule a(2))
  show "set (processed_installs st) \<subseteq> set (processed_installs st')" using pi by simp
  show "set (managed_installs st) \<subseteq> set (managed_installs st')" using mi by simp
  show "x \<in> set (processed_installs st') \<Longrightarrow> x \<notin> set (processed_installs st)
           \<Longrightarrow> x \<notin> set (managed_updates st)"
    using pi new by auto
  show "x \<in> set (processed_installs st') \<Longrightarrow> x \<notin> set (processed_installs st)
           \<Longrightarrow> \<exists>m item. os_path_split_tail m = x \<and> getItemDetail env m cats [] = Inr (Some item)"
    using pi new by auto
qed

lemma removal_extends_uninstalls:
  "removal_extends st st' \<Longrightarrow> set (processed_uninstalls st) \<subseteq> set (processed_uninstalls st')"
  unfolding removal_extends_def by auto

text \<open>
  C10. When processManagedUpdate enqueues a name as an install (the name is in none of the
  three lists, its pkginfo is found and some version is installed), the name is recorded in
  \<^verbatim>\<open>managed_updates\<close> and is not in \<^verbatim>\<open>processed_installs\<close> when the call returns. So
  unless another entry of \<^verbatim>\<open>processed_installs\<close> has the same base name, a later
  processRemoval of the name is not refused: it goes on and marks the base name as processed
  for uninstall.
\<close>

theorem managed_update_is_not_a_processed_install:
  assumes "os_path_split_tail m \<notin> set (managed_updates st)"
    and "os_path_split_tail m \<notin> set (processed_installs st)"
    and "os_path_split_tail m \<notin> set (processed_uninstalls st)"
    and "getItemDetail env m cats [] = Inr (Some item)"
    and "someVersionInstalled env item"
    and "processInstall depth env m cats
           (st\<lparr>managed_updates := managed_updates st @ [os_path_split_tail m]\<rparr>) = Some (Inr (r, st'))"
  shows "processManagedUpdate depth env m cats st = Some (Inr st') \<and>
         os_path_split_tail m \<in> set (managed_updates st') \<and>
         os_path_split_tail m \<notin> set (processed_installs st') \<and>
         (\<forall>b v. nameAndVersion (os_path_split_tail m) = Inr (b, v) \<longrightarrow>
                (\<forall>y \<in> set (processed_installs st'). \<forall>v'. nameAndVersion y \<noteq> Inr (b, v')) \<longrightarrow>
                \<not> removal_refused st' m \<and>
                (\<forall>d c r' st''. processRemoval d env m c st' = Some (Inr (r', st'')) \<longrightarrow>
                               b \<in> set (processed_uninstalls st'')))"
proof -
  let ?st1 = "st\<lparr>managed_updates := managed_updates st @ [os_path_split_tail m]\<rparr>"
  have run: "processManagedUpdate depth env m cats st = Some (Inr st')"
    using assms by (simp add: processManagedUpdate_def Let_def)
  have ext: "install_extends env cats ?st1 st'"
    using assms(6) by (rule processInstall_extends)
  have mu: "os_path_split_tail m \<in> set (managed_updates st')"
    using install_extends_fields(1)[OF ext] by simp
  have pi: "os_path_split_tail m \<notin> set (processed_installs st')"
    using install_extends_fields(5)[OF ext, of "os_path_split_tail m"] assms(2) by auto
  have rem: "\<not> removal_refused st' m \<and>
         (\<forall>d c r' st''. processRemoval d env m c st' = Some (Inr (r', st'')) \<longrightarrow>
                        b \<in> set (processed_uninstalls st''))"
    if nv: "nameAndVersion (os_path_split_tail m) = Inr (b, v)"
      and others: "\<forall>y \<in> set (processed_installs st'). \<forall>v'. nameAndVersion y \<noteq> Inr (b, v')"
    for b v
  proof -
    have nr: "\<not> removal_refused st' m"
    proof (cases "names_without_version (processed_installs st')")
      case (Inl e)
      then show ?thesis using nv by (simp add: removal_refused_def)
    next
      case (Inr names)
      then have "b \<notin> set names"
        using names_without_version_set[OF Inr] others by blast
      then show ?thesis using nv Inr by (simp add: removal_refused_def)
    qed
    have "b \<in> set (processed_uninstalls st'')"
      if rr: "processRemoval d env m c st' = Some (Inr (r', st''))" for d c r' st''
    proof (cases d)
      case 0
      then show ?thesis using rr by simp
    next
      case (Suc d')
      then have "processRemoval_body (processRemoval d' env) env m c st' = Some (Inr (r', st''))"
        using rr by simp
      then show ?thesis
      proof (cases rule: processRemoval_body_cases)
        case refused
        then show ?thesis using nr by simp
      next
        case (already b' v')
        then show ?thesis using nv by simp
      next
        case (marked b' v' names)
        have "removal_extends (st'\<lparr>processed_uninstalls := processed_uninstalls st' @ [b']\<rparr>) st''"
          using remove_marked_extends[of "processRemoval d' env" env b' v' c _ r' st'']
            processRemoval_extends marked(6) by blast
        then have "b' \<in> set (processed_uninstalls st'')"
          using removal_extends_uninstalls by fastforce
        then show ?thesis using marked(2) nv by simp
      qed
    qed
    then show ?thesis using nr by blast
  qed
  show ?thesis using run mu pi rem by blast
qed

theorem managed_update_is_not_a_processed_install_witness:
  "processManagedUpdate 1 (sample_env [item_Baz]) ''Baz'' [''production''] initial_installinfo
     = Some (Inr after_update_Baz) \<and>
   ''Baz'' \<in> set (managed_updates after_update_Baz) \<and>
   ''Baz'' \<notin> set (processed_installs after_update_Baz) \<and>
   \<not> removal_refused after_update_Baz ''Baz'' \<and>
   ''Baz'' \<in> set (processed_uninstalls after_update_and_removal_Baz)"
proof -
  let ?env = "sample_env [item_Baz]"
  have h1: "os_path_split_tail ''Baz'' \<notin> set (managed_updates initial_installinfo)"
    and h2: "os_path_split_tail ''Baz'' \<notin> set (processed_installs initial_installinfo)"
    and h3: "os_path_split_tail ''Baz'' \<notin> set (processed_uninstalls initial_installinfo)"
    by (simp_all add: initial_installinfo_def)
  have h4: "getItemDetail ?env ''Baz'' [''production''] [] = Inr (Some item_Baz)"
    by code_simp
  have h5: "someVersionInstalled ?env item_Baz"
    by code_simp
  have h6: "processInstall 1 ?env ''Baz'' [''production'']
           (initial_installinfo\<lparr>managed_updates :=
              managed_updates initial_installinfo @ [os_path_split_tail ''Baz'']\<rparr>)
          = Some (Inr (True, after_update_Baz))"
    unfolding after_update_Baz_def by code_simp
  have nv: "nameAndVersion (os_path_split_tail ''Baz'') = Inr (''Baz'', [])"
    by code_simp
  have none: "\<forall>y \<in> set (processed_installs after_update_Baz). \<forall>v'. nameAndVersion y \<noteq> Inr (''Baz'', v')"
  proof -
    have "processed_installs after_update_Baz = []"
      unfolding after_update_Baz_def by code_simp
    then show ?thesis by simp
  qed
  have rm: "processRemoval 1 ?env ''Baz'' [''production''] after_update_Baz
        = Some (Inr (True, after_update_and_removal_Baz))"
    unfolding after_update_and_removal_Baz_def after_update_Baz_def by code_simp
  have tl: "os_path_split_tail ''Baz'' = ''Baz''"
    by code_simp
  show ?thesis
    using managed_update_is_not_a_processed_install [OF h1 h2 h3 h4 h5 h6] nv none rm
    unfolding tl by blast
qed

section \<open>A versioned request and a missing prerequisite\<close>

text \<open>
  C4. The claim says that a request whose name embeds a version, for an item that is absent
  and downloads, goes on to process the updates for that version and returns True. The code
  appends the record and then calls lookForUpdatesForVersion with two arguments instead of
  three: the call raises TypeError, which processInstall does not catch.
\<close>

theorem versioned_install_raises_TypeError:
  "processInstall 1 (sample_env [item_Firefox]) ''Firefox-1.0'' [''production''] initial_installinfo
     = Some (Inl (TypeError ''lookForUpdatesForVersion() takes exactly 3 arguments (2 given)''))"
  by code_simp

lemma unversioned_install_returns:
  "result_of (processInstall 1 (sample_env [item_Firefox]) ''Firefox'' [''production'']
                initial_installinfo) = Some True"
  by code_simp

lemma install_absent_versioned:
  assumes "includedversion \<noteq> []"
    and "download_installeritem env item_pl (managed_installs st) False = Fetched downloaded"
  shows "\<exists>msg. install_absent rec env name includedversion item_pl cats st = Some (Inl (TypeError msg))"
  using assms by (simp add: install_absent_def Let_def raises_def)

lemma processInstall_body_mark:
  assumes "nameAndVersion (os_path_split_tail m) = Inr (b, v)"
    and "os_path_split_tail m \<notin> set (processed_installs st)"
    and "b \<notin> set (processed_uninstalls st)"
    and "getItemDetail env m cats [] = Inr (Some item)"
    and "\<not> isItemInInstallInfo env item (managed_installs st) (pk_version item)"
  shows "processInstall_body rec env m cats st =
     and_then (process_requires rec (requires_list item) cats
                 (mark_processed (os_path_split_tail m) st) True)
       (\<lambda>(dependenciesMet, st2).
          if \<not> dependenciesMet then returns (False, st2)
          else (let installed_state = installedState env item
                in if installed_state = 0
                   then install_absent rec env b v item cats st2
                   else install_present rec env installed_state b v item cats st2))"
proof -
  have "managed_installs (mark_processed (os_path_split_tail m) st) = managed_installs st"
    by (simp add: mark_processed_def)
  then show ?thesis
    using assms unfolding processInstall_body_def mark_processed_def Let_def
    by (simp del: lift_Some add: lift_def)
qed

lemma processInstall_not_found:
  assumes "processInstall depth env m cats st = Some (Inr (r, st'))"
    and "os_path_split_tail m \<notin> set (processed_installs st)"
    and "getItemDetail env m cats [] = Inr None"
  shows "r = False \<and> st' = st"
proof (cases depth)
  case 0
  then show ?thesis using assms(1) by simp
next
  case (Suc n)
  then have body: "processInstall_body (processInstall n env) env m cats st = Some (Inr (r, st'))"
    using assms(1) by simp
  then obtain b v where "nameAndVersion (os_path_split_tail m) = Inr (b, v)"
    by (auto simp: processInstall_body_def Let_def dest!: and_then_returnsD)
  then show ?thesis
    using body assms(2,3)
    by (auto simp: processInstall_body_def Let_def split: if_splits)
qed

lemma process_requires_met:
  "process_requires rec deps cats st met0 = Some (Inr (met, st')) \<Longrightarrow> met \<Longrightarrow> met0"
proof (induction deps arbitrary: st met0)
  case Nil
  then show ?case by simp
next
  case (Cons d deps)
  from Cons.prems(1) obtain success st1 where
    "process_requires rec deps cats st1 (met0 \<and> success) = Some (Inr (met, st'))"
    by (auto dest!: and_then_returnsD)
  then have "met0 \<and> success" using Cons.IH Cons.prems(2) by blast
  then show ?case by simp
qed

lemma process_requires_missing:
  assumes missing: "getItemDetail env B cats [] = Inr None"
    and "B \<in> set deps"
    and "process_requires (processInstall depth env) deps cats st met0 = Some (Inr (met, st'))"
    and "os_path_split_tail B \<notin> set (processed_installs st')"
  shows "met = False"
  using assms(2-)
proof (induction deps arbitrary: st met0)
  case Nil
  then show ?case by simp
next
  case (Cons d deps)
  from Cons.prems(2) obtain success st1 where
    one: "processInstall depth env d cats st = Some (Inr (success, st1))"
    and rest: "process_requires (processInstall depth env) deps cats st1 (met0 \<and> success)
                 = Some (Inr (met, st'))"
    by (auto dest!: and_then_returnsD)
  have e1: "install_extends env cats st st1"
    using one by (rule processInstall_extends)
  have e2: "install_extends env cats st1 st'"
    using process_requires_extends[of "processInstall depth env" cats env deps st1 _ met st']
      processInstall_extends rest by blast
  show ?case
  proof (cases "d = B")
    case True
    have "os_path_split_tail B \<notin> set (processed_installs st)"
      using install_extends_fields(3)[OF e1] install_extends_fields(3)[OF e2] Cons.prems(3) by blast
    then have "success = False"
      using processInstall_not_found[OF one[unfolded True] _ missing] by simp
    then show ?thesis using rest process_requires_met by fastforce
  next
    case False
    then have inB: "B \<in> set deps" using Cons.prems(1) by simp
    show ?thesis using Cons.IH[OF inB rest Cons.prems(3)] .
  qed
qed

text \<open>
  C1 (as amended). Let A be requested for install, not processed before, found in the
  catalogs and not yet in the install list, and let its \<^verbatim>\<open>requires\<close> name an item B that
  getItemDetail finds in none of the catalogs and that is still unprocessed when the
  prerequisites have been gone through. Then processInstall returns False for A in the
  state that processing the prerequisites has left, so no record is appended for A (none
  at all when B is the only prerequisite); A's name is in \<^verbatim>\<open>processed_installs\<close> afterwards,
  unless A is a managed update; and the remaining requests of the run are processed from
  that state.
\<close>

theorem missing_prerequisite_fails_the_item:
  assumes nv: "nameAndVersion (os_path_split_tail A) = Inr (b, v)"
    and fresh: "os_path_split_tail A \<notin> set (processed_installs st)"
      "b \<notin> set (processed_uninstalls st)"
    and found: "getItemDetail env A cats [] = Inr (Some item_pl)"
    and notyet: "\<not> isItemInInstallInfo env item_pl (managed_installs st) (pk_version item_pl)"
    and req: "B \<in> set (requires_list item_pl)"
    and missing: "getItemDetail env B cats [] = Inr None"
    and deps: "process_requires (processInstall depth env) (requires_list item_pl) cats
                 (mark_processed (os_path_split_tail A) st) True = Some (Inr (met, st2))"
    and unprocessed: "os_path_split_tail B \<notin> set (processed_installs st2)"
  shows "processInstall (Suc depth) env A cats st = Some (Inr (False, st2)) \<and>
         (os_path_split_tail A \<in> set (processed_installs st2)
            \<longleftrightarrow> os_path_split_tail A \<notin> set (managed_updates st)) \<and>
         (requires_list item_pl = [B] \<longrightarrow> st2 = mark_processed (os_path_split_tail A) st) \<and>
         (\<forall>rest. process_requests (Suc depth) env (Install A cats # rest) st
                   = process_requests (Suc depth) env rest st2)"
proof -
  let ?st1 = "mark_processed (os_path_split_tail A) st"
  have met: "met = False"
    using process_requires_missing[OF missing req deps unprocessed] .
  have one: "processInstall (Suc depth) env A cats st = Some (Inr (False, st2))"
    using processInstall_body_mark[OF nv fresh found notyet, of "processInstall depth env"] deps met
    by simp
  have ext: "install_extends env cats ?st1 st2"
    using process_requires_extends[of "processInstall depth env" cats env _ ?st1 True met st2]
      processInstall_extends deps by blast
  have two: "os_path_split_tail A \<in> set (processed_installs st2)
            \<longleftrightarrow> os_path_split_tail A \<notin> set (managed_updates st)"
  proof (cases "os_path_split_tail A \<in> set (managed_updates st)")
    case True
    then have same: "?st1 = st" by (simp add: mark_processed_def)
    have "os_path_split_tail A \<notin> set (processed_installs st2)"
      using install_extends_fields(5)[OF ext, of "os_path_split_tail A"] same fresh(1) True by auto
    then show ?thesis using True by simp
  next
    case False
    then have "os_path_split_tail A \<in> set (processed_installs ?st1)"
      by (simp add: mark_processed_def)
    then show ?thesis using install_extends_fields(3)[OF ext] False by blast
  qed
  have three: "st2 = ?st1" if only: "requires_list item_pl = [B]"
  proof -
    from deps only obtain success where
      B: "processInstall depth env B cats ?st1 = Some (Inr (success, st2))"
      by (auto dest!: and_then_returnsD)
    have "os_path_split_tail B \<notin> set (processed_installs ?st1)"
      using install_extends_fields(3)[OF ext] unprocessed by blast
    then show ?thesis using processInstall_not_found[OF B _ missing] by simp
  qed
  have four: "process_requests (Suc depth) env (Install A cats # rest) st
                   = process_requests (Suc depth) env rest st2" for rest
    using one by simp
  show ?thesis using one two three four by blast
qed

theorem missing_prerequisite_fails_the_item_witness:
  "processInstall 2 (sample_env [item_Foo, item_Baz]) ''Foo'' [''production''] initial_installinfo
     = Some (Inr (False, mark_processed ''Foo'' initial_installinfo)) \<and>
   ''Foo'' \<in> set (processed_installs (mark_processed ''Foo'' initial_installinfo)) \<and>
   process_requests 2 (sample_env [item_Foo, item_Baz])
       [Install ''Foo'' [''production''], Install ''Baz'' [''production'']] initial_installinfo
     = process_requests 2 (sample_env [item_Foo, item_Baz])
         [Install ''Baz'' [''production'']] (mark_processed ''Foo'' initial_installinfo)"
proof -
  let ?env = "sample_env [item_Foo, item_Baz]"
  have tl: "os_path_split_tail ''Foo'' = ''Foo''"
    by code_simp
  have nv: "nameAndVersion (os_path_split_tail ''Foo'') = Inr (''Foo'', [])"
    by code_simp
  have f1: "os_path_split_tail ''Foo'' \<notin> set (processed_installs initial_installinfo)"
    and f2: "''Foo'' \<notin> set (processed_uninstalls initial_installinfo)"
    by (simp_all add: initial_installinfo_def)
  have found: "getItemDetail ?env ''Foo'' [''production''] [] = Inr (Some item_Foo)"
    by code_simp
  have notyet: "\<not> isItemInInstallInfo ?env item_Foo (managed_installs initial_installinfo)
                    (pk_version item_Foo)"
    by (simp add: initial_installinfo_def)
  have req: "''Bar'' \<in> set (requires_list item_Foo)"
    by code_simp
  have missing: "getItemDetail ?env ''Bar'' [''production''] [] = Inr None"
    by code_simp
  have deps: "process_requires (processInstall 1 ?env) (requires_list item_Foo) [''production'']
                 (mark_processed (os_path_split_tail ''Foo'') initial_installinfo) True
              = Some (Inr (False, mark_processed ''Foo'' initial_installinfo))"
    by code_simp
  have unprocessed: "os_path_split_tail ''Bar''
                       \<notin> set (processed_installs (mark_processed ''Foo'' initial_installinfo))"
    by code_simp
  have not_update: "''Foo'' \<notin> set (managed_updates initial_installinfo)"
    by (simp add: initial_installinfo_def)
  have two: "Suc 1 = 2" by simp
  show ?thesis
    using missing_prerequisite_fails_the_item
            [OF nv f1 f2 found notyet req missing deps unprocessed] not_update
    unfolding tl two by blast
qed

text \<open>
  C1 as stated fails in one point: processInstall appends the name to
  \<^verbatim>\<open>processed_installs\<close> as soon as it has found the pkginfo, before it looks at the
  prerequisites. Foo requires Bar, which no catalog has: the call returns False, appends
  no record, and leaves Foo in \<^verbatim>\<open>processed_installs\<close>.
\<close>

theorem failed_item_stays_processed:
  "getItemDetail (sample_env [item_Foo, item_Baz]) ''Bar'' [''production''] [] = Inr None \<and>
   requires_list item_Foo = [''Bar''] \<and>
   processInstall 2 (sample_env [item_Foo, item_Baz]) ''Foo'' [''production''] initial_installinfo
     = Some (Inr (False, initial_installinfo\<lparr>processed_installs := [''Foo'']\<rparr>))"
  by code_simp

section \<open>What a successful processInstall leaves behind\<close>

lemma item_eligible_has_keys:
  "item_eligible env item = Inr ok \<Longrightarrow> pk_name item \<noteq> None \<and> pk_version item \<noteq> None"
  by (auto simp: item_eligible_def split: if_splits)

lemma first_eligible_has_keys:
  "first_eligible env items indexlist = Inr (Some item)
     \<Longrightarrow> pk_name item \<noteq> None \<and> pk_version item \<noteq> None"
proof (induction indexlist)
  case Nil
  then show ?case by simp
next
  case (Cons index indexlist)
  show ?case
  proof (cases "index < length items")
    case False
    then show ?thesis using Cons.prems by simp
  next
    case True
    then obtain ok where ok: "item_eligible env (items ! index) = Inr ok"
      using Cons.prems by (auto split: sum.splits)
    show ?thesis
    proof (cases ok)
      case True
      then have "item = items ! index" using Cons.prems ok \<open>index < length items\<close> by simp
      then show ?thesis using item_eligible_has_keys[OF ok] by simp
    next
      case False
      then show ?thesis using Cons.prems Cons.IH ok \<open>index < length items\<close> by simp
    qed
  qed
qed

lemma getItemDetail_catalogs_has_keys:
  "getItemDetail_catalogs env name vers cats = Inr (Some item)
     \<Longrightarrow> pk_name item \<noteq> None \<and> pk_version item \<noteq> None"
proof (induction cats)
  case Nil
  then show ?case by simp
next
  case (Cons c cats)
  show ?case
  proof (cases "map_of (CATALOG env) c")
    case None
    then show ?thesis using Cons by simp
  next
    case (Some db)
    show ?thesis
    proof (cases "map_of (db_named db) name")
      case None
      then show ?thesis using Cons Some by simp
    next
      case byvers: (Some itemsmatchingname)
      define indexlist where "indexlist =
         (if vers = ''latest''
          then concat (map (indexes_of itemsmatchingname)
                 (sort_desc (\<lambda>k. MunkiLooseVersion env (Some k)) (map fst itemsmatchingname)))
          else indexes_of itemsmatchingname vers)"
      have step: "(case first_eligible env (db_items db) indexlist of
                     Inl e \<Rightarrow> Inl e
                   | Inr (Some item) \<Rightarrow> Inr (Some item)
                   | Inr None \<Rightarrow> getItemDetail_catalogs env name vers cats) = Inr (Some item)"
        using Cons.prems Some byvers by (simp add: indexlist_def Let_def)
      show ?thesis
      proof (cases "first_eligible env (db_items db) indexlist")
        case (Inl e)
        then show ?thesis using step by simp
      next
        case (Inr found)
        then show ?thesis
          using step Cons.IH first_eligible_has_keys[of env "db_items db" indexlist item]
          by (cases found) auto
      qed
    qed
  qed
qed

lemma getItemDetail_has_keys:
  "getItemDetail env m cats vers = Inr (Some item)
     \<Longrightarrow> pk_name item \<noteq> None \<and> pk_version item \<noteq> None"
  unfolding getItemDetail_def Let_def
  by (auto split: sum.splits dest: getItemDetail_catalogs_has_keys)

lemma compareVersions_same: "compareVersions env v v = 1"
  by (simp add: compareVersions_def)

lemma isItemInInstallInfo_member:
  assumes "pk_name item = Some n"
    and "rcd \<in> set thelist"
    and "ii_name rcd = n"
    and "\<not> truthy_str vers \<or> ii_installed rcd = Some True \<or>
         compareVersions env (ii_version_to_install rcd) vers \<in> {1, 2}"
  shows "isItemInInstallInfo env item thelist vers"
  using assms(2)
proof (induction thelist)
  case Nil
  then show ?case by simp
next
  case (Cons h thelist)
  show ?case
  proof (cases "h = rcd")
    case True
    then show ?thesis using assms(1,3,4) by auto
  next
    case False
    then have "isItemInInstallInfo env item thelist vers" using Cons by simp
    then show ?thesis using assms(1) by simp
  qed
qed

lemma processInstall_body_cases:
  assumes "processInstall_body rec env m cats st = Some (Inr (r, st'))"
  obtains (already) "r = True" "st' = st" "os_path_split_tail m \<in> set (processed_installs st)"
  | (refused) "r = False"
  | (scheduled) b v item where
      "nameAndVersion (os_path_split_tail m) = Inr (b, v)"
      "os_path_split_tail m \<notin> set (processed_installs st)"
      "b \<notin> set (processed_uninstalls st)"
      "getItemDetail env m cats [] = Inr (Some item)"
      "isItemInInstallInfo env item (managed_installs st) (pk_version item)"
      "st' = mark_processed (os_path_split_tail m) st"
  | (resolved) b v item st2 where
      "nameAndVersion (os_path_split_tail m) = Inr (b, v)"
      "os_path_split_tail m \<notin> set (processed_installs st)"
      "b \<notin> set (processed_uninstalls st)"
      "getItemDetail env m cats [] = Inr (Some item)"
      "process_requires rec (requires_list item) cats
         (mark_processed (os_path_split_tail m) st) True = Some (Inr (True, st2))"
      "(installedState env item = 0 \<and>
          install_absent rec env b v item cats st2 = Some (Inr (r, st'))) \<or>
       (installedState env item \<noteq> 0 \<and>
          install_present rec env (installedState env item) b v item cats st2
            = Some (Inr (r, st')))"
proof -
  obtain b v where nv: "nameAndVersion (os_path_split_tail m) = Inr (b, v)"
    using assms by (auto simp: processInstall_body_def Let_def dest!: and_then_returnsD)
  show ?thesis
  proof (cases "os_path_split_tail m \<in> set (processed_installs st)")
    case True
    then have "r = True" "st' = st"
      using assms nv by (auto simp: processInstall_body_def Let_def)
    then show ?thesis using already True by blast
  next
    case notproc: False
    show ?thesis
    proof (cases "b \<in> set (processed_uninstalls st)")
      case True
      then have "r = False"
        using assms nv notproc by (auto simp: processInstall_body_def Let_def)
      then show ?thesis by (rule refused)
    next
      case notun: False
      obtain found where gd: "getItemDetail env m cats [] = Inr found"
        using assms nv notproc notun
        by (auto simp: processInstall_body_def Let_def dest!: and_then_returnsD)
      show ?thesis
      proof (cases found)
        case None
        then have "r = False"
          using assms nv notproc notun gd by (auto simp: processInstall_body_def Let_def)
        then show ?thesis by (rule refused)
      next
        case (Some item)
        have mi: "managed_installs (mark_processed (os_path_split_tail m) st) = managed_installs st"
          by (simp add: mark_processed_def)
        show ?thesis
        proof (cases "isItemInInstallInfo env item (managed_installs st) (pk_version item)")
          case True
          then have "st' = mark_processed (os_path_split_tail m) st"
            using assms nv notproc notun gd Some
            by (auto simp: processInstall_body_def Let_def mark_processed_def split: if_splits)
          moreover have "getItemDetail env m cats [] = Inr (Some item)"
            using gd Some by simp
          ultimately show ?thesis using scheduled[OF nv notproc notun _ True] by blast
        next
          case False
          have "and_then (process_requires rec (requires_list item) cats
                 (mark_processed (os_path_split_tail m) st) True)
             (\<lambda>(dependenciesMet, st2).
                if \<not> dependenciesMet then returns (False, st2)
                else (let installed_state = installedState env item
                      in if installed_state = 0
                         then install_absent rec env b v item cats st2
                         else install_present rec env installed_state b v item cats st2))
             = Some (Inr (r, st'))"
            using processInstall_body_mark[where rec=rec, OF nv notproc notun _ False] gd Some assms
            by simp
          then obtain met st2 where
            pr: "process_requires rec (requires_list item) cats
                   (mark_processed (os_path_split_tail m) st) True = Some (Inr (met, st2))"
            and fin: "(if \<not> met then returns (False, st2)
                else (let installed_state = installedState env item
                      in if installed_state = 0
                         then install_absent rec env b v item cats st2
                         else install_present rec env installed_state b v item cats st2))
                = Some (Inr (r, st'))"
            by (auto dest!: and_then_returnsD)
          show ?thesis
          proof (cases met)
            case False
            then have "r = False" using fin by simp
            then show ?thesis by (rule refused)
          next
            case True
            then have "(installedState env item = 0 \<and>
                install_absent rec env b v item cats st2 = Some (Inr (r, st'))) \<or>
               (installedState env item \<noteq> 0 \<and>
                install_present rec env (installedState env item) b v item cats st2
                  = Some (Inr (r, st')))"
              using fin by (auto simp: Let_def split: if_splits)
            moreover have "process_requires rec (requires_list item) cats
                   (mark_processed (os_path_split_tail m) st) True = Some (Inr (True, st2))"
              using pr True by simp
            moreover have "getItemDetail env m cats [] = Inr (Some item)"
              using gd Some by simp
            ultimately show ?thesis
              using resolved[OF nv notproc notun] by blast
          qed
        qed
      qed
    qed
  qed
qed

lemma downloaded_iteminfo_fields:
  "ii_name (downloaded_iteminfo env item downloaded) = (case pk_name item of None \<Rightarrow> [] | Some n \<Rightarrow> n)"
  "ii_version_to_install (downloaded_iteminfo env item downloaded)
     = Some (case pk_version item of None \<Rightarrow> ''UNKNOWN'' | Some v \<Rightarrow> v)"
  by (simp_all add: downloaded_iteminfo_def download_iteminfo_def base_iteminfo_def
      blank_iteminfo_def copy_optional_keys_def Let_def)

lemma present_iteminfo_fields:
  "ii_name (present_iteminfo env state item version) = (case pk_name item of None \<Rightarrow> [] | Some n \<Rightarrow> n)"
  "ii_installed (present_iteminfo env state item version) = Some True"
  by (simp_all add: present_iteminfo_def base_iteminfo_def blank_iteminfo_def Let_def)

lemma install_absent_True:
  assumes rec: "\<And>m s r s'. rec m cats s = Some (Inr (r, s')) \<Longrightarrow> install_extends env cats s s'"
    and run: "install_absent rec env b v item cats st2 = Some (Inr (True, st1))"
  shows "\<exists>downloaded. downloaded_iteminfo env item downloaded \<in> set (managed_installs st1)"
proof (cases "download_installeritem env item (managed_installs st2) False")
  case (Fetched downloaded)
  then obtain us where
    "process_updates rec us cats (append_install (downloaded_iteminfo env item downloaded) st2)
       = Some (Inr st1)"
    using run
    by (auto simp: install_absent_def Let_def split: if_splits dest!: and_then_returnsD)
  then have "install_extends env cats (append_install (downloaded_iteminfo env item downloaded) st2) st1"
    using process_updates_extends[of rec cats env us _ st1] rec by blast
  then have "set (managed_installs (append_install (downloaded_iteminfo env item downloaded) st2))
               \<subseteq> set (managed_installs st1)"
    by (rule install_extends_fields(4))
  then show ?thesis by (auto simp: append_install_def)
next
  case PackageVerificationError
  then show ?thesis using run by (simp add: install_absent_def)
next
  case (CurlDownloadError x3)
  then show ?thesis using run by (simp add: install_absent_def)
next
  case (MunkiDownloadError x4)
  then show ?thesis using run by (simp add: install_absent_def)
qed

lemma install_present_True:
  assumes rec: "\<And>m s r s'. rec m cats s = Some (Inr (r, s')) \<Longrightarrow> install_extends env cats s s'"
    and run: "install_present rec env state b v item cats st2 = Some (Inr (r, st1))"
  shows "\<exists>version. present_iteminfo env state item version \<in> set (managed_installs st1)"
proof -
  obtain version us where
    "process_updates rec us cats (append_install (present_iteminfo env state item version) st2)
       = Some (Inr st1)"
    using run
    by (auto simp: install_present_def Let_def split: option.splits dest!: and_then_returnsD)
  then have "install_extends env cats (append_install (present_iteminfo env state item version) st2) st1"
    using process_updates_extends[of rec cats env us _ st1] rec by blast
  then have "set (managed_installs (append_install (present_iteminfo env state item version) st2))
               \<subseteq> set (managed_installs st1)"
    by (rule install_extends_fields(4))
  then show ?thesis by (auto simp: append_install_def)
qed

lemma processInstall_body_repeat:
  assumes "nameAndVersion (os_path_split_tail m) = Inr (b, v)"
    and "b \<notin> set (processed_uninstalls st)"
    and "getItemDetail env m cats [] = Inr (Some item)"
    and "os_path_split_tail m \<in> set (processed_installs st) \<or>
         (os_path_split_tail m \<in> set (managed_updates st) \<and>
          isItemInInstallInfo env item (managed_installs st) (pk_version item))"
  shows "processInstall_body rec env m cats st = Some (Inr (True, st))"
  using assms unfolding processInstall_body_def Let_def
  by (auto simp: returns_def)

section \<open>A second processInstall of the same name\<close>

text \<open>
  C7. When a call of processInstall has returned True, a second call with the same name
  and catalogs, made in the state the first one left, returns True and leaves that state
  unchanged: no second record is appended. This holds for every item, with or without
  \<^verbatim>\<open>requires\<close> and \<^verbatim>\<open>update_for\<close>.
\<close>

theorem second_processInstall_changes_nothing:
  assumes first: "processInstall depth env m cats st = Some (Inr (True, st1))"
  shows "processInstall (Suc d) env m cats st1 = Some (Inr (True, st1))"
proof (cases depth)
  case 0
  then show ?thesis using first by simp
next
  case (Suc n)
  have rec: "\<And>m s r s'. processInstall n env m cats s = Some (Inr (r, s'))
               \<Longrightarrow> install_extends env cats s s'"
    by (rule processInstall_extends)
  have ext: "install_extends env cats st st1"
    using first by (rule processInstall_extends)
  from first Suc have body:
    "processInstall_body (processInstall n env) env m cats st = Some (Inr (True, st1))"
    by simp
  let ?tail = "os_path_split_tail m"
  let ?st0 = "mark_processed ?tail st"
  have marked: "?tail \<in> set (processed_installs ?st0) \<or> ?tail \<in> set (managed_updates st)"
    by (simp add: mark_processed_def)
  have mi0: "managed_installs ?st0 = managed_installs st"
    by (simp add: mark_processed_def)
  obtain b0 v0 where nv0: "nameAndVersion ?tail = Inr (b0, v0)"
    using body by (auto simp: processInstall_body_def Let_def dest!: and_then_returnsD)
  from body show ?thesis
  proof (cases rule: processInstall_body_cases)
    case already
    then show ?thesis using nv0 by (simp add: processInstall_body_def Let_def)
  next
    case refused
    then show ?thesis by simp
  next
    case (scheduled b v item)
    have "b \<notin> set (processed_uninstalls st1)"
      using scheduled(3,6) by (simp add: mark_processed_def)
    moreover have "?tail \<in> set (processed_installs st1) \<or>
         (?tail \<in> set (managed_updates st1) \<and>
          isItemInInstallInfo env item (managed_installs st1) (pk_version item))"
      using scheduled(5,6) by (auto simp: mark_processed_def)
    ultimately show ?thesis
      using processInstall_body_repeat[OF scheduled(1) _ scheduled(4)] by simp
  next
    case (resolved b v item st2)
    have e1: "install_extends env cats ?st0 st2"
      using process_requires_extends[of "processInstall n env" cats env _ ?st0 True True st2]
        rec resolved(5) by blast
    have e2: "install_extends env cats st2 st1"
      using resolved(6) install_absent_extends[of "processInstall n env" cats env b v item st2 True st1]
        install_present_extends[of "processInstall n env" cats env _ b v item st2 True st1] rec
      by blast
    obtain name where name: "pk_name item = Some name"
      using getItemDetail_has_keys[OF resolved(4)] by blast
    obtain version where version: "pk_version item = Some version"
      using getItemDetail_has_keys[OF resolved(4)] by blast
    have inlist: "isItemInInstallInfo env item (managed_installs st1) (pk_version item)"
      using resolved(6)
    proof
      assume "installedState env item = 0 \<and>
          install_absent (processInstall n env) env b v item cats st2 = Some (Inr (True, st1))"
      then obtain downloaded where
        "downloaded_iteminfo env item downloaded \<in> set (managed_installs st1)"
        using install_absent_True[of "processInstall n env" cats env b v item st2 st1] rec by blast
      then show ?thesis
        using isItemInInstallInfo_member[OF name, of "downloaded_iteminfo env item downloaded"
                "managed_installs st1" "pk_version item" env]
        by (simp add: downloaded_iteminfo_fields name version compareVersions_same)
    next
      assume "installedState env item \<noteq> 0 \<and>
          install_present (processInstall n env) env (installedState env item) b v item cats st2
            = Some (Inr (True, st1))"
      then obtain vers where
        "present_iteminfo env (installedState env item) item vers \<in> set (managed_installs st1)"
        using install_present_True[of "processInstall n env" cats env _ b v item st2 True st1] rec
        by blast
      then show ?thesis
        using isItemInInstallInfo_member[OF name,
                of "present_iteminfo env (installedState env item) item vers"
                "managed_installs st1" "pk_version item" env]
        by (simp add: present_iteminfo_fields name)
    qed
    have pu: "processed_uninstalls st1 = processed_uninstalls st"
      using install_extends_fields(2)[OF ext] .
    have mu: "managed_updates st1 = managed_updates st"
      using install_extends_fields(1)[OF ext] .
    have "?tail \<in> set (processed_installs st1) \<or> ?tail \<in> set (managed_updates st1)"
      using marked install_extends_fields(3)[OF e1] install_extends_fields(3)[OF e2] mu by auto
    then have "?tail \<in> set (processed_installs st1) \<or>
         (?tail \<in> set (managed_updates st1) \<and>
          isItemInInstallInfo env item (managed_installs st1) (pk_version item))"
      using inlist by blast
    moreover have "b \<notin> set (processed_uninstalls st1)"
      using resolved(3) pu by simp
    ultimately show ?thesis
      using processInstall_body_repeat[OF resolved(1) _ resolved(4)] by simp
  qed
qed

theorem second_processInstall_changes_nothing_witness:
  "requires_list item_Baz = [] \<and> pk_update_for item_Baz = None \<and>
   processInstall 1 (sample_env [item_Baz]) ''Baz'' [''production''] initial_installinfo
     = Some (Inr (True, after_processInstall_Baz)) \<and>
   length (managed_installs after_processInstall_Baz) = 1 \<and>
   processInstall (Suc 0) (sample_env [item_Baz]) ''Baz'' [''production''] after_processInstall_Baz
     = Some (Inr (True, after_processInstall_Baz))"
proof -
  have a: "requires_list item_Baz = [] \<and> pk_update_for item_Baz = None"
    by code_simp
  have first: "processInstall 1 (sample_env [item_Baz]) ''Baz'' [''production''] initial_installinfo
     = Some (Inr (True, after_processInstall_Baz))"
    unfolding after_processInstall_Baz_def by code_simp
  have len: "length (managed_installs after_processInstall_Baz) = 1"
    unfolding after_processInstall_Baz_def by code_simp
  show ?thesis
    using second_processInstall_changes_nothing [OF first, of 0] a first len by simp
qed

section \<open>Removal by receipts\<close>

lemma remove_references_step:
  assumes "remove_references name (p # ps) refs acc = Inr (really, refs')"
  obtains (absent) "map_of refs p = None" "remove_references name ps refs acc = Inr (really, refs')"
  | (dropped) names where "map_of refs p = Some names" "name \<in> set names"
      "remove_references name ps (AList.update p (remove1 name names) refs)
         (if remove1 name names = [] then acc @ [p] else acc) = Inr (really, refs')"
  using assms by (cases "map_of refs p") (auto split: if_splits)

lemma remove_references_before:
  "remove_references name pkgs refs acc = Inr (really, refs') \<Longrightarrow> map_of refs' pkg = Some ns'
     \<Longrightarrow> \<exists>ns. map_of refs pkg = Some ns \<and> set ns \<subseteq> insert name (set ns')"
proof (induction pkgs arbitrary: refs acc)
  case Nil
  then show ?case by auto
next
  case (Cons p ps)
  from Cons.prems(1) show ?case
  proof (cases rule: remove_references_step)
    case absent
    then show ?thesis using Cons.IH Cons.prems(2) by blast
  next
    case (dropped names)
    then obtain ns1 where ns1: "map_of (AList.update p (remove1 name names) refs) pkg = Some ns1"
      and sub: "set ns1 \<subseteq> insert name (set ns')"
      using Cons.IH Cons.prems(2) by blast
    show ?thesis
    proof (cases "pkg = p")
      case True
      then have "ns1 = remove1 name names" using ns1 by (simp add: update_conv')
      moreover have "set names \<subseteq> insert name (set (remove1 name names))"
        using in_set_remove1[of _ name names] by blast
      ultimately show ?thesis using dropped(1) sub True by auto
    next
      case False
      then show ?thesis using ns1 sub by (simp add: update_conv')
    qed
  qed
qed

lemma remove_references_keeps_empty:
  "remove_references name pkgs refs acc = Inr (really, refs') \<Longrightarrow> map_of refs pkg = Some []
     \<Longrightarrow> map_of refs' pkg = Some []"
proof (induction pkgs arbitrary: refs acc)
  case Nil
  then show ?case by auto
next
  case (Cons p ps)
  from Cons.prems(1) show ?case
  proof (cases rule: remove_references_step)
    case absent
    then show ?thesis using Cons.IH Cons.prems(2) by blast
  next
    case (dropped names)
    then have "pkg \<noteq> p" using Cons.prems(2) by auto
    then have "map_of (AList.update p (remove1 name names) refs) pkg = Some []"
      using Cons.prems(2) by (simp add: update_conv')
    then show ?thesis using Cons.IH dropped(3) by blast
  qed
qed

lemma remove_references_queued:
  "remove_references name pkgs refs acc = Inr (really, refs')
     \<Longrightarrow> \<exists>new. really = acc @ new \<and> (\<forall>pkg \<in> set new. map_of refs' pkg = Some [])"
proof (induction pkgs arbitrary: refs acc)
  case Nil
  then show ?case by auto
next
  case (Cons p ps)
  from Cons.prems(1) show ?case
  proof (cases rule: remove_references_step)
    case absent
    then show ?thesis using Cons.IH by blast
  next
    case (dropped names)
    then obtain new where new: "really = (if remove1 name names = [] then acc @ [p] else acc) @ new"
      and emp: "\<forall>pkg \<in> set new. map_of refs' pkg = Some []"
      using Cons.IH by blast
    show ?thesis
    proof (cases "remove1 name names = []")
      case False
      then show ?thesis using new emp by auto
    next
      case True
      then have "map_of (AList.update p (remove1 name names) refs) p = Some []"
        by (simp add: update_conv')
      then have "map_of refs' p = Some []"
        using remove_references_keeps_empty[OF dropped(3)] by blast
      then have "\<forall>pkg \<in> set (p # new). map_of refs' pkg = Some []"
        using emp by simp
      moreover have "really = acc @ (p # new)" using new True by simp
      ultimately show ?thesis by blast
    qed
  qed
qed

lemma remove_references_last_reference:
  assumes "remove_references name pkgs refs [] = Inr (really, refs')"
    and "pkg \<in> set really"
  shows "map_of refs' pkg = Some [] \<and>
         (\<exists>names. map_of refs pkg = Some names \<and> (\<forall>other \<in> set names. other = name))"
proof -
  have emp: "map_of refs' pkg = Some []"
    using remove_references_queued[OF assms(1)] assms(2) by auto
  then obtain ns where "map_of refs pkg = Some ns" "set ns \<subseteq> insert name (set [])"
    using remove_references_before[OF assms(1)] by blast
  then show ?thesis using emp by auto
qed

lemma find_install_evidence_nonempty:
  "find_install_evidence env infoitems st = Inr (Some item, st2) \<Longrightarrow> infoitems \<noteq> []"
  by (cases infoitems) auto

lemma processRemoval_by_receipts:
  assumes nv: "nameAndVersion (os_path_split_tail m) = Inr (b, v)"
    and names: "names_without_version (processed_installs st) = Inr names" "b \<notin> set names"
    and notyet: "b \<notin> set (processed_uninstalls st)"
    and cands: "removal_infoitems env b v cats = Inr infoitems"
    and evidence: "find_install_evidence env infoitems
                     (st\<lparr>processed_uninstalls := processed_uninstalls st @ [b]\<rparr>)
                   = Inr (Some item, st2)"
    and item: "pk_name item = Some name" "pk_version item = Some version"
    and receipts: "pk_uninstallable item" "pk_uninstall_method item = Some ''removepackages''"
      "getReceiptsToRemove item st2 = Inr pkgs" "pkgs \<noteq> []"
    and deps: "remove_dependents (processRemoval depth env) env
                 [name, name @ ''-'' @ version, name @ ''--'' @ version] cats cats [] st2 True
               = Some (Inr (True, st3))"
  shows "processRemoval (Suc depth) env m cats st
         = record_removal (processRemoval depth env) env item name version ''removepackages'' pkgs
             cats st3"
proof -
  let ?rec = "processRemoval depth env"
  let ?st1 = "st\<lparr>processed_uninstalls := processed_uninstalls st @ [b]\<rparr>"
  have "processRemoval (Suc depth) env m cats st = remove_marked ?rec env b v cats ?st1"
    using nv names notyet by (simp add: processRemoval_body_def Let_def)
  also have "\<dots> = remove_installed_item ?rec env item cats st2"
    using cands evidence find_install_evidence_nonempty[OF evidence]
    by (simp add: remove_marked_def)
  also have "\<dots> = record_removal ?rec env item name version ''removepackages'' pkgs cats st3"
  proof -
    have "choose_uninstall env item st2 = Inr (True, pkgs)"
      using receipts by (simp add: choose_uninstall_def)
    then show ?thesis
      using item receipts(2) deps
      by (simp add: remove_installed_item_def del: append.simps)
  qed
  finally show ?thesis .
qed

lemma drop_references_eq:
  assumes "pkgs \<noteq> []" "PKGDATA st = Some d"
    and "remove_references name pkgs (pkg_references d) [] = Inr (really, refs)"
  shows "drop_references name pkgs st
         = Some (Inr (really, st\<lparr>PKGDATA := Some (d\<lparr>pkg_references := refs\<rparr>)\<rparr>))"
  using assms by (simp add: drop_references_def returns_def)

lemma finish_removal_packages:
  assumes "finish_removal rec env item name version ''removepackages'' iteminfo1 cats st1
           = Some (Inr (True, st'))"
  shows "removals st' \<noteq> [] \<and> rm_packages (last (removals st')) = rm_packages iteminfo1"
proof -
  have mk: "method_keys env ''removepackages'' item st1
              (iteminfo1\<lparr>rm_uninstall_method := Some ''removepackages''\<rparr>)
            = Inr (Some (iteminfo1\<lparr>rm_uninstall_method := Some ''removepackages''\<rparr>))"
    by (simp add: method_keys_def)
  from assms obtain st2 where
    "st' = append_removal
             (iteminfo1\<lparr>rm_uninstall_method := Some ''removepackages'',
                        rm_installed_version := Some version,
                        rm_RestartAction := pk_RestartAction item\<rparr>) st2"
    unfolding finish_removal_def mk
    by (auto dest!: and_then_returnsD)
  then show ?thesis by (simp add: append_removal_def)
qed

lemma evidenceThisIsInstalled_table:
  assumes "evidenceThisIsInstalled env item st = Inr (r, st')"
  shows "\<exists>d. st' = st\<lparr>PKGDATA := d\<rparr>"
proof (cases "found_all_installs env item")
  case True
  then have "st' = st\<lparr>PKGDATA := PKGDATA st\<rparr>"
    using assms by (simp add: evidenceThisIsInstalled_def)
  then show ?thesis by blast
next
  case False
  show ?thesis
  proof (cases "pk_receipts item")
    case None
    then have "st' = st\<lparr>PKGDATA := PKGDATA st\<rparr>"
      using assms False by (simp add: evidenceThisIsInstalled_def)
    then show ?thesis by blast
  next
    case (Some rs)
    show ?thesis
    proof (cases rs)
      case Nil
      then have "st' = st\<lparr>PKGDATA := PKGDATA st\<rparr>"
        using assms False Some by (simp add: evidenceThisIsInstalled_def)
      then show ?thesis by blast
    next
      case (Cons a list)
      then show ?thesis
        using assms False Some
        by (cases "pk_name item") (auto simp: evidenceThisIsInstalled_def Let_def)
    qed
  qed
qed

lemma evidenceThisIsInstalled_built_table:
  assumes "evidenceThisIsInstalled env item st = Inr (r, st')" "PKGDATA st = Some d"
  shows "st' = st"
proof -
  have same: "st\<lparr>PKGDATA := Some d\<rparr> = st" using assms(2) by simp
  show ?thesis
  proof (cases "found_all_installs env item")
    case True
    then show ?thesis using assms by (simp add: evidenceThisIsInstalled_def)
  next
    case False
    show ?thesis
    proof (cases "pk_receipts item")
      case None
      then show ?thesis using assms False by (simp add: evidenceThisIsInstalled_def)
    next
      case (Some rs)
      show ?thesis
      proof (cases rs)
        case Nil
        then show ?thesis using assms False Some by (simp add: evidenceThisIsInstalled_def)
      next
        case (Cons a list)
        then show ?thesis
          using assms False Some same
          by (cases "pk_name item") (auto simp: evidenceThisIsInstalled_def Let_def)
      qed
    qed
  qed
qed

lemma find_install_evidence_removals:
  "find_install_evidence env infoitems st = Inr (r, st') \<Longrightarrow> removals st' = removals st"
proof (induction infoitems arbitrary: st)
  case Nil
  then show ?case by simp
next
  case (Cons item infoitems)
  from Cons.prems obtain ok st1 where ev: "evidenceThisIsInstalled env item st = Inr (ok, st1)"
    by (auto split: if_splits sum.splits)
  have e1: "removals st1 = removals st" using evidenceThisIsInstalled_table[OF ev] by auto
  show ?case
  proof (cases ok)
    case True
    then have "st' = st1" using Cons.prems ev by (auto split: if_splits)
    then show ?thesis using e1 by simp
  next
    case False
    then have "find_install_evidence env infoitems st1 = Inr (r, st')"
      using Cons.prems ev by (auto split: if_splits)
    then have "removals st' = removals st1" by (rule Cons.IH)
    then show ?thesis using e1 by simp
  qed
qed

lemma remove_dependents_of_catalog_none:
  assumes table: "PKGDATA st = Some d"
    and none: "list_all (\<lambda>item_pl. requires_one_of targets item_pl \<longrightarrow>
                  (case evidenceThisIsInstalled env item_pl st of
                     Inl e \<Rightarrow> False
                   | Inr (installed, st') \<Rightarrow> \<not> installed)) catalog_pl"
  shows "remove_dependents_of_catalog rec env targets catalog_pl cats names st
           = Some (Inr (ok, names', st')) \<Longrightarrow> st' = st"
  using none
proof (induction catalog_pl arbitrary: names)
  case Nil
  then show ?case by simp
next
  case (Cons item_pl catalog_pl)
  have rest: "list_all (\<lambda>item_pl. requires_one_of targets item_pl \<longrightarrow>
                  (case evidenceThisIsInstalled env item_pl st of
                     Inl e \<Rightarrow> False
                   | Inr (installed, st') \<Rightarrow> \<not> installed)) catalog_pl"
    using Cons.prems(2) by simp
  show ?case
  proof (cases "pk_name item_pl \<in> set names")
    case True
    then show ?thesis using Cons.prems(1) Cons.IH[OF _ rest] by simp
  next
    case notdone: False
    show ?thesis
    proof (cases "requires_one_of targets item_pl")
      case False
      then show ?thesis
        using Cons.prems(1) Cons.IH[OF _ rest] notdone by (simp add: requires_one_of_def)
    next
      case True
      then obtain st1 where ev: "evidenceThisIsInstalled env item_pl st = Inr (False, st1)"
        using Cons.prems(2) by (auto split: sum.splits)
      have "st1 = st" using evidenceThisIsInstalled_built_table[OF ev table] .
      then have "remove_dependents_of_catalog rec env targets catalog_pl cats
                   (names @ [pk_name item_pl]) st = Some (Inr (ok, names', st'))"
        using Cons.prems(1) notdone True ev by (simp add: requires_one_of_def)
      then show ?thesis using Cons.IH[OF _ rest] by blast
    qed
  qed
qed

lemma remove_dependents_none:
  assumes table: "PKGDATA st = Some d"
  shows "no_installed_dependent env targets files st
     \<Longrightarrow> remove_dependents rec env targets files cats names st ok = Some (Inr (r, st'))
     \<Longrightarrow> st' = st"
proof (induction files arbitrary: names ok)
  case Nil
  then show ?case by simp
next
  case (Cons f files)
  from Cons.prems(2) obtain catalog_pl fin names1 st1 where
    rd: "readPlist_catalog env f = Inr catalog_pl"
    and one: "remove_dependents_of_catalog rec env targets catalog_pl cats names st
        = Some (Inr (fin, names1, st1))"
    and rest: "remove_dependents rec env targets files cats names1 st1 (ok \<and> fin) = Some (Inr (r, st'))"
    by (auto elim!: and_then_returnsE)
  have "list_all (\<lambda>item_pl. requires_one_of targets item_pl \<longrightarrow>
                  (case evidenceThisIsInstalled env item_pl st of
                     Inl e \<Rightarrow> False
                   | Inr (installed, st') \<Rightarrow> \<not> installed)) catalog_pl"
    using Cons.prems(1) rd by (simp add: no_installed_dependent_def)
  then have "st1 = st" using remove_dependents_of_catalog_none[OF table _ one] by blast
  moreover have "no_installed_dependent env targets files st"
    using Cons.prems(1) by (simp add: no_installed_dependent_def)
  ultimately show ?case using Cons.IH rest by blast
qed

lemma getReceiptsToRemove_table:
  "getReceiptsToRemove item st = Inr pkgs \<Longrightarrow> \<exists>d. PKGDATA st = Some d"
  by (auto simp: getReceiptsToRemove_def split: option.splits)

text \<open>
  C6 does not hold as stated. Plugin requires Office, and Office shares its only receipt
  with Word. Removing Office first removes Plugin, whose record is appended to
  \<^verbatim>\<open>removals\<close>; then Office's reference to the shared package is dropped, Word still
  refers to it, nothing is queued and processRemoval returns False: the removals list,
  empty before the call, holds Plugin's record after it.
\<close>

theorem failed_removal_keeps_record_of_dependent:
  "removals initial_installinfo = [] \<and>
   result_of (processRemoval 2 suite_env ''Office'' [''production''] initial_installinfo)
     = Some False \<and>
   map rm_name (removals after_removal_Office) = [''Plugin'']"
  by code_simp

text \<open>
  The reference that an item drops stays dropped when its removal then fails. Word's
  removal fails, since Office refers to the shared package too; Word stays installed, but
  the table no longer lists it, so the removal of Office that follows queues the package.
\<close>

lemma failed_removal_leaves_reference_dropped:
  "result_of (processRemoval 1 suite_env ''Word'' [''production''] initial_installinfo)
     = Some False \<and>
   map rm_name (removals after_removal_Word_Office) = [''Plugin'', ''Office''] \<and>
   map rm_packages (removals after_removal_Word_Office)
     = [Some [''com.example.plugin''], Some [''com.example.shared'']]"
  by code_simp

text \<open>
  C6 (as amended). A removal by receipts (the item is uninstallable with method
  \<^verbatim>\<open>removepackages\<close>, has install evidence and a non-empty receipt list, and its dependent
  items are removed) drops the item's reference to each of its packages from the reference
  table as it stands once the dependent items are removed. A package is queued (it is in
  \<^verbatim>\<open>packagesToReallyRemove\<close>, which becomes \<^verbatim>\<open>iteminfo['packages']\<close> of the record appended)
  only if the table then lists no reference to it, the item removed having been the only
  name the table listed for it. The search for install evidence appends nothing to
  \<^verbatim>\<open>removals\<close>, and the removal of the dependent items only appends to it. If no package is
  queued, processRemoval returns False in the state the removal of the dependent items
  left, with the references dropped: it appends no record for the item itself, so the
  removals list is the one before the call followed by the records of the dependent items
  removed, and it is the list before the call when no item that requires this one shows
  evidence of being installed.
\<close>

theorem removal_by_receipts_counts_references:
  assumes nv: "nameAndVersion (os_path_split_tail m) = Inr (b, v)"
    and names: "names_without_version (processed_installs st) = Inr names" "b \<notin> set names"
    and notyet: "b \<notin> set (processed_uninstalls st)"
    and cands: "removal_infoitems env b v cats = Inr infoitems"
    and evidence: "find_install_evidence env infoitems
                     (st\<lparr>processed_uninstalls := processed_uninstalls st @ [b]\<rparr>)
                   = Inr (Some item, st2)"
    and item: "pk_name item = Some name" "pk_version item = Some version"
    and receipts: "pk_uninstallable item" "pk_uninstall_method item = Some ''removepackages''"
      "getReceiptsToRemove item st2 = Inr pkgs" "pkgs \<noteq> []"
    and deps: "remove_dependents (processRemoval depth env) env
                 [name, name @ ''-'' @ version, name @ ''--'' @ version] cats cats [] st2 True
               = Some (Inr (True, st3))"
    and table: "PKGDATA st3 = Some d"
    and refs: "remove_references name pkgs (pkg_references d) [] = Inr (really, references)"
  shows "(\<forall>pkg \<in> set really.
            map_of references pkg = Some [] \<and>
            (\<exists>users. map_of (pkg_references d) pkg = Some users \<and>
                     (\<forall>other \<in> set users. other = name))) \<and>
         removals st2 = removals st \<and>
         (\<exists>records. removals st3 = removals st @ records) \<and>
         (no_installed_dependent env [name, name @ ''-'' @ version, name @ ''--'' @ version]
            cats st2 \<longrightarrow> st3 = st2) \<and>
         (really = [] \<longrightarrow>
            processRemoval (Suc depth) env m cats st
              = Some (Inr (False, st3\<lparr>PKGDATA := Some (d\<lparr>pkg_references := references\<rparr>)\<rparr>))) \<and>
         (really \<noteq> [] \<longrightarrow>
            (\<forall>st'. processRemoval (Suc depth) env m cats st = Some (Inr (True, st')) \<longrightarrow>
                   removals st' \<noteq> [] \<and> rm_packages (last (removals st')) = Some really))"
proof -
  let ?rec = "processRemoval depth env"
  let ?st4 = "st3\<lparr>PKGDATA := Some (d\<lparr>pkg_references := references\<rparr>)\<rparr>"
  have path: "processRemoval (Suc depth) env m cats st
         = record_removal ?rec env item name version ''removepackages'' pkgs cats st3"
    using processRemoval_by_receipts[OF nv names notyet cands evidence item receipts deps] .
  have dr: "drop_references name pkgs st3 = Some (Inr (really, ?st4))"
    using drop_references_eq[OF receipts(4) table refs] .
  have one: "\<forall>pkg \<in> set really.
            map_of references pkg = Some [] \<and>
            (\<exists>users. map_of (pkg_references d) pkg = Some users \<and>
                     (\<forall>other \<in> set users. other = name))"
    using remove_references_last_reference[OF refs] by blast
  have before: "removals st2 = removals st"
    using find_install_evidence_removals[OF evidence] by simp
  have "removal_extends st2 st3"
    using remove_dependents_extends[of ?rec env _ cats cats "[]" st2 True True st3]
      processRemoval_extends deps by blast
  then have during: "\<exists>records. removals st3 = removals st @ records"
    using before by (simp add: removal_extends_def)
  have nodeps: "st3 = st2"
    if "no_installed_dependent env [name, name @ ''-'' @ version, name @ ''--'' @ version]
          cats st2"
  proof -
    obtain d2 where "PKGDATA st2 = Some d2"
      using getReceiptsToRemove_table[OF receipts(3)] by blast
    then show ?thesis using remove_dependents_none[OF _ that deps] by blast
  qed
  have two: "processRemoval (Suc depth) env m cats st = Some (Inr (False, ?st4))"
    if "really = []"
    using path dr that receipts(4) by (simp add: record_removal_def returns_def)
  have three: "removals st' \<noteq> [] \<and> rm_packages (last (removals st')) = Some really"
    if ne: "really \<noteq> []"
      and run: "processRemoval (Suc depth) env m cats st = Some (Inr (True, st'))" for st'
  proof -
    have "finish_removal ?rec env item name version ''removepackages''
            ((removal_iteminfo item)\<lparr>rm_packages := Some really\<rparr>) cats ?st4
          = Some (Inr (True, st'))"
      using run path dr ne receipts(4) by (simp add: record_removal_def)
    then show ?thesis using finish_removal_packages by fastforce
  qed
  show ?thesis using one before during nodeps two three by blast
qed

theorem removal_by_receipts_counts_references_witness:
  "no_installed_dependent suite_env [''Word'', ''Word'' @ ''-'' @ ''1.0'', ''Word'' @ ''--'' @ ''1.0'']
     [''production''] Word_marked \<and>
   processRemoval 1 suite_env ''Word'' [''production''] initial_installinfo
     = Some (Inr (False, Word_marked\<lparr>PKGDATA :=
          Some (sample_pkgdata\<lparr>pkg_references :=
                  [(''com.example.shared'', [''Office'']),
                   (''com.example.plugin'', [''Plugin''])]\<rparr>)\<rparr>)) \<and>
   removals Word_marked = removals initial_installinfo \<and>
   processRemoval 1 suite_env ''Plugin'' [''production''] initial_installinfo
     = Some (Inr (True, after_removal_Plugin)) \<and>
   map_of (pkg_references sample_pkgdata) ''com.example.plugin'' = Some [''Plugin''] \<and>
   removals after_removal_Plugin \<noteq> [] \<and>
   rm_packages (last (removals after_removal_Plugin)) = Some [''com.example.plugin'']"
proof -
  have names: "names_without_version (processed_installs initial_installinfo) = Inr []"
    by (simp add: initial_installinfo_def)
  have notyet: "x \<notin> set (processed_uninstalls initial_installinfo)" for x
    by (simp add: initial_installinfo_def)
  have one: "Suc 0 = 1" by simp
  have nv_W: "nameAndVersion (os_path_split_tail ''Word'') = Inr (''Word'', [])"
    by code_simp
  have fresh_W: "''Word'' \<notin> set []" by simp
  have cands_W: "removal_infoitems suite_env ''Word'' [] [''production''] = Inr [item_Word]"
    by code_simp
  have evidence_W: "find_install_evidence suite_env [item_Word]
       (initial_installinfo\<lparr>processed_uninstalls :=
          processed_uninstalls initial_installinfo @ [''Word'']\<rparr>)
     = Inr (Some item_Word, Word_marked)"
    by code_simp
  have item_W: "pk_name item_Word = Some ''Word''" "pk_version item_Word = Some ''1.0''"
    by code_simp+
  have receipts_W: "pk_uninstallable item_Word"
    "pk_uninstall_method item_Word = Some ''removepackages''"
    "getReceiptsToRemove item_Word Word_marked = Inr [''com.example.shared'']"
    "[''com.example.shared''] \<noteq> []"
    by code_simp+
  have deps_W: "remove_dependents (processRemoval 0 suite_env) suite_env
                 [''Word'', ''Word'' @ ''-'' @ ''1.0'', ''Word'' @ ''--'' @ ''1.0'']
                 [''production''] [''production''] [] Word_marked True
               = Some (Inr (True, Word_marked))"
    by code_simp
  have table_W: "PKGDATA Word_marked = Some sample_pkgdata"
    by (simp add: Word_marked_def)
  have refs_W: "remove_references ''Word'' [''com.example.shared''] (pkg_references sample_pkgdata) []
              = Inr ([], [(''com.example.shared'', [''Office'']),
                          (''com.example.plugin'', [''Plugin''])])"
    by code_simp
  have nodep_W: "no_installed_dependent suite_env
                   [''Word'', ''Word'' @ ''-'' @ ''1.0'', ''Word'' @ ''--'' @ ''1.0'']
                   [''production''] Word_marked"
    by code_simp
  have Word: "processRemoval 1 suite_env ''Word'' [''production''] initial_installinfo
     = Some (Inr (False, Word_marked\<lparr>PKGDATA :=
          Some (sample_pkgdata\<lparr>pkg_references :=
                  [(''com.example.shared'', [''Office'']),
                   (''com.example.plugin'', [''Plugin''])]\<rparr>)\<rparr>)) \<and>
     removals Word_marked = removals initial_installinfo"
    using removal_by_receipts_counts_references
            [OF nv_W names fresh_W notyet cands_W evidence_W item_W receipts_W deps_W table_W
                refs_W]
    unfolding one by (simp del: processRemoval.simps)
  have nv_P: "nameAndVersion (os_path_split_tail ''Plugin'') = Inr (''Plugin'', [])"
    by code_simp
  have fresh_P: "''Plugin'' \<notin> set []" by simp
  have cands_P: "removal_infoitems suite_env ''Plugin'' [] [''production''] = Inr [item_Plugin]"
    by code_simp
  have evidence_P: "find_install_evidence suite_env [item_Plugin]
       (initial_installinfo\<lparr>processed_uninstalls :=
          processed_uninstalls initial_installinfo @ [''Plugin'']\<rparr>)
     = Inr (Some item_Plugin, Plugin_marked)"
    by code_simp
  have item_P: "pk_name item_Plugin = Some ''Plugin''" "pk_version item_Plugin = Some ''1.0''"
    by code_simp+
  have receipts_P: "pk_uninstallable item_Plugin"
    "pk_uninstall_method item_Plugin = Some ''removepackages''"
    "getReceiptsToRemove item_Plugin Plugin_marked = Inr [''com.example.plugin'']"
    "[''com.example.plugin''] \<noteq> []"
    by code_simp+
  have deps_P: "remove_dependents (processRemoval 0 suite_env) suite_env
                 [''Plugin'', ''Plugin'' @ ''-'' @ ''1.0'', ''Plugin'' @ ''--'' @ ''1.0'']
                 [''production''] [''production''] [] Plugin_marked True
               = Some (Inr (True, Plugin_marked))"
    by code_simp
  have table_P: "PKGDATA Plugin_marked = Some sample_pkgdata"
    by (simp add: Plugin_marked_def)
  have refs_P: "remove_references ''Plugin'' [''com.example.plugin''] (pkg_references sample_pkgdata) []
              = Inr ([''com.example.plugin''],
                     [(''com.example.shared'', [''Office'', ''Word'']),
                      (''com.example.plugin'', [])])"
    by code_simp
  have run_P: "processRemoval 1 suite_env ''Plugin'' [''production''] initial_installinfo
                 = Some (Inr (True, after_removal_Plugin))"
    by code_simp
  have users_P: "map_of (pkg_references sample_pkgdata) ''com.example.plugin'' = Some [''Plugin'']"
    by code_simp
  have Plugin: "removals after_removal_Plugin \<noteq> [] \<and>
     rm_packages (last (removals after_removal_Plugin)) = Some [''com.example.plugin'']"
    using removal_by_receipts_counts_references
            [OF nv_P names fresh_P notyet cands_P evidence_P item_P receipts_P deps_P table_P
                refs_P] run_P
    unfolding one by (simp del: processRemoval.simps)
  show ?thesis using nodep_W Word run_P users_P Plugin by blast
qed

end
